theory Spec2Isabelle
  imports Complex_Main "HOL-Library.Stream"
begin

section \<open>Numbers: binary64 arithmetic, rounding to decimals, the random source\<close>

text \<open>
  A finite JavaScript \<open>number\<close> is a binary64 value, a rational. The model computes with
  these rationals and rounds the exact result of every operation to the nearest binary64
  value, ties to the even significand, as IEEE 754 prescribes for \<open>+\<close>, \<open>-\<close>, \<open>*\<close>, \<open>/\<close> and
  for reading a decimal literal: \<open>0.6\<close> is \<open>lit64 (3 / 5)\<close>, while \<open>4.5\<close>, \<open>0.75\<close> and the
  integers are binary64 values as they stand. The sign of zero is not kept apart.

  A number that is only copied into a returned record and never computed with (a
  latitude, the result of \<open>toFixed\<close> read back by \<open>parseFloat\<close> or \<open>Number\<close>) is written as
  the decimal it prints as; the value stored is the binary64 value nearest to it.
\<close>

type_synonym number = rat

text \<open>The nearest integer, the even one of the two on a tie.\<close>

definition rne :: "rat \<Rightarrow> int" where
  "rne x =
     (let n = \<lfloor>x\<rfloor>; d = x - of_int n
      in if d < 1 / 2 then n else if 1 / 2 < d then n + 1 else if even n then n else n + 1)"

text \<open>
  The binary exponent of a number: the greatest \<open>e\<close> from \<open>-1022\<close> to \<open>1023\<close> with
  \<open>2^e \<le> |x|\<close>, and \<open>-1022\<close> below the normal range. The unit in the last place is 52
  binary places below it.
\<close>

definition expo :: "rat \<Rightarrow> int" where
  "expo x = Max (insert (- 1022) {e \<in> {- 1022..1023}. 2 powi e \<le> \<bar>x\<bar>})"

definition ulp :: "rat \<Rightarrow> rat" where
  "ulp x = 2 powi (expo x - 52)"

text \<open>
  Rounding to binary64. From \<open>2^1024\<close> on the spacing of the last binade goes on; these
  results are the overflows (see \<open>to_double\<close>).
\<close>

definition fl :: "rat \<Rightarrow> number" where
  "fl x = of_int (rne (x / ulp x)) * ulp x"

definition lit64 :: "rat \<Rightarrow> number" where
  "lit64 q = fl q"

definition add64 :: "number \<Rightarrow> number \<Rightarrow> number" where
  "add64 x y = fl (x + y)"

definition sub64 :: "number \<Rightarrow> number \<Rightarrow> number" where
  "sub64 x y = fl (x - y)"

definition mul64 :: "number \<Rightarrow> number \<Rightarrow> number" where
  "mul64 x y = fl (x * y)"

text \<open>
  All the values of the type \<open>number\<close>, for the places where an infinity or \<open>NaN\<close> can
  come in: a parsed cell, a field of an input record.
\<close>

datatype jsnum = Finite number | PosInfinity | NegInfinity | NaN

text \<open>A real number as a \<open>number\<close>: rounded, and an infinity from \<open>2^1024\<close> on.\<close>

definition to_double :: "rat \<Rightarrow> jsnum" where
  "to_double x =
     (if 2 powi 1024 \<le> \<bar>fl x\<bar> then (if 0 < x then PosInfinity else NegInfinity)
      else Finite (fl x))"

definition js_add :: "jsnum \<Rightarrow> jsnum \<Rightarrow> jsnum" where
  "js_add a b =
     (case (a, b) of
        (Finite x, Finite y) \<Rightarrow> to_double (x + y)
      | (NaN, _) \<Rightarrow> NaN
      | (_, NaN) \<Rightarrow> NaN
      | (PosInfinity, NegInfinity) \<Rightarrow> NaN
      | (NegInfinity, PosInfinity) \<Rightarrow> NaN
      | (PosInfinity, _) \<Rightarrow> PosInfinity
      | (NegInfinity, _) \<Rightarrow> NegInfinity
      | (Finite x, PosInfinity) \<Rightarrow> PosInfinity
      | (Finite x, NegInfinity) \<Rightarrow> NegInfinity)"

text \<open>Division by the length of a non-empty array, a positive integer.\<close>

definition js_div_length :: "jsnum \<Rightarrow> nat \<Rightarrow> jsnum" where
  "js_div_length a n =
     (case a of
        Finite x \<Rightarrow> to_double (x / of_nat n)
      | PosInfinity \<Rightarrow> PosInfinity
      | NegInfinity \<Rightarrow> NegInfinity
      | NaN \<Rightarrow> NaN)"

text \<open>
  \<open>x.toFixed(f)\<close> of a finite \<open>x\<close> below \<open>10^21\<close> in magnitude, as the decimal it
  denotes: the sign is put aside, and the digits are those of the integer \<open>n\<close> for which
  \<open>n / 10^f\<close> is nearest to the exact value of \<open>x\<close>, the larger \<open>n\<close> on a tie.
\<close>

definition toFixed :: "nat \<Rightarrow> number \<Rightarrow> number" where
  "toFixed f x =
     (if x < 0 then - (of_int \<lfloor>(- x) * 10 ^ f + 1 / 2\<rfloor> / 10 ^ f)
      else of_int \<lfloor>x * 10 ^ f + 1 / 2\<rfloor> / 10 ^ f)"

text \<open>
  \<open>Number(x.toFixed(f))\<close> for every \<open>number\<close>: \<open>toFixed\<close> gives \<open>NaN\<close>, \<open>Infinity\<close> and
  \<open>-Infinity\<close> by name, and from \<open>10^21\<close> on the digits of the number itself, which read
  back as the same number.
\<close>

definition js_toFixed :: "nat \<Rightarrow> jsnum \<Rightarrow> jsnum" where
  "js_toFixed f a =
     (case a of
        Finite x \<Rightarrow> if 10 ^ 21 \<le> \<bar>x\<bar> then Finite x else Finite (toFixed f x)
      | PosInfinity \<Rightarrow> PosInfinity
      | NegInfinity \<Rightarrow> NegInfinity
      | NaN \<Rightarrow> NaN)"

text \<open>
  \<open>Math.random()\<close> reads the next value of a global source and advances it. The source
  is the stream of the values still to come; every value lies in \<open>[0, 1)\<close>.
\<close>

type_synonym rng = "number stream"

definition Math_random :: "rng \<Rightarrow> number \<times> rng" where
  "Math_random s = (shd s, stl s)"

definition valid_rng :: "rng \<Rightarrow> bool" where
  "valid_rng s \<longleftrightarrow> (\<forall>r \<in> sset s. 0 \<le> r \<and> r < 1)"

datatype error = TypeError string | Error string

text \<open>\<open>Array.prototype.map\<close> with a callback that draws random numbers and may throw.\<close>

fun Array_map ::
  "('a \<Rightarrow> rng \<Rightarrow> error + ('b \<times> rng)) \<Rightarrow> 'a list \<Rightarrow> rng \<Rightarrow> error + ('b list \<times> rng)" where
  "Array_map f [] s = Inr ([], s)"
| "Array_map f (x # xs) s =
     (case f x s of
        Inl e \<Rightarrow> Inl e
      | Inr (y, s') \<Rightarrow>
          (case Array_map f xs s' of
             Inl e \<Rightarrow> Inl e
           | Inr (ys, s'') \<Rightarrow> Inr (y # ys, s'')))"

section \<open>Strings (String.prototype.trim, split) and the conversion Number(string)\<close>

text \<open>
  A JavaScript string is modelled by a \<open>string\<close>; a character stands for one code unit
  below 256. \<open>trim\<close> removes white space and line terminators from both ends: among the
  characters of the model these are tab, line feed, vertical tab, form feed, carriage
  return, space and the no-break space.
\<close>

definition isWhiteSpace :: "char \<Rightarrow> bool" where
  "isWhiteSpace c \<longleftrightarrow>
     c \<in> set [CHR 0x09, CHR 0x0A, CHR 0x0B, CHR 0x0C, CHR 0x0D, CHR 0x20, CHR 0xA0]"

definition trim :: "string \<Rightarrow> string" where
  "trim s = rev (dropWhile isWhiteSpace (rev (dropWhile isWhiteSpace s)))"

text \<open>\<open>s.split(sep)\<close> for a separator of one character; the empty string gives \<open>['']\<close>.\<close>

fun split :: "char \<Rightarrow> string \<Rightarrow> string list" where
  "split sep [] = [[]]"
| "split sep (c # cs) =
     (if c = sep then [] # split sep cs
      else (case split sep cs of [] \<Rightarrow> [[c]] | w # ws \<Rightarrow> (c # w) # ws))"

text \<open>
  \<open>Number(string)\<close>: the value of a literal is the exact number it denotes, rounded to
  binary64 by \<open>to_double\<close>, so a literal from \<open>2^1024\<close> on is an infinity.
\<close>

definition isNaN :: "jsnum \<Rightarrow> bool" where
  "isNaN n \<longleftrightarrow> n = NaN"

definition isDecimalDigit :: "char \<Rightarrow> bool" where
  "isDecimalDigit c \<longleftrightarrow> c \<in> set ''0123456789''"

definition digitValue :: "char \<Rightarrow> nat" where
  "digitValue c =
     (if c \<in> set ''0123456789'' then of_char c - 48
      else if c \<in> set ''abcdef'' then of_char c - 87
      else of_char c - 55)"

definition digitsValue :: "nat \<Rightarrow> string \<Rightarrow> nat" where
  "digitsValue base ds = foldl (\<lambda>acc c. acc * base + digitValue c) 0 ds"

definition signedDigits :: "int \<Rightarrow> string \<Rightarrow> int option" where
  "signedDigits sg ds =
     (if ds \<noteq> [] \<and> list_all isDecimalDigit ds then Some (sg * int (digitsValue 10 ds)) else None)"

text \<open>The optional exponent part that ends a decimal literal: nothing, or e or E and a signed integer.\<close>

definition parseExponent :: "string \<Rightarrow> int option" where
  "parseExponent s =
     (case s of
        [] \<Rightarrow> Some 0
      | c # t \<Rightarrow>
          if c = CHR ''e'' \<or> c = CHR ''E'' then
            (case t of
               [] \<Rightarrow> None
             | d # u \<Rightarrow>
                 if d = CHR ''+'' then signedDigits 1 u
                 else if d = CHR ''-'' then signedDigits (- 1) u
                 else signedDigits 1 t)
          else None)"

definition scale10 :: "rat \<Rightarrow> int \<Rightarrow> rat" where
  "scale10 m e = (if 0 \<le> e then m * 10 ^ nat e else m / 10 ^ nat (- e))"

text \<open>
  StrUnsignedDecimalLiteral of ECMAScript: \<open>Infinity\<close>, or digits with an optional
  fraction and exponent, at least one digit before or after the point.
\<close>

definition StrUnsignedDecimalLiteral :: "string \<Rightarrow> jsnum" where
  "StrUnsignedDecimalLiteral s =
     (if s = ''Infinity'' then PosInfinity
      else
        let ip = takeWhile isDecimalDigit s;
            r1 = dropWhile isDecimalDigit s;
            fr = (case r1 of
                    [] \<Rightarrow> ([], [])
                  | c # t \<Rightarrow>
                      if c = CHR ''.'' then (takeWhile isDecimalDigit t, dropWhile isDecimalDigit t)
                      else ([], r1))
        in if ip = [] \<and> fst fr = [] then NaN
           else (case parseExponent (snd fr) of
                   None \<Rightarrow> NaN
                 | Some e \<Rightarrow>
                     to_double (scale10 (of_nat (digitsValue 10 ip)
                                          + of_nat (digitsValue 10 (fst fr)) / 10 ^ length (fst fr)) e)))"

text \<open>NonDecimalIntegerLiteral: \<open>0x\<close>, \<open>0o\<close> or \<open>0b\<close> (either case) and digits of that base.\<close>

definition radixLiteral :: "nat \<Rightarrow> string \<Rightarrow> string \<Rightarrow> jsnum" where
  "radixLiteral base allowed ds =
     (if ds \<noteq> [] \<and> list_all (\<lambda>c. c \<in> set allowed) ds then to_double (of_nat (digitsValue base ds))
      else NaN)"

definition NonDecimalIntegerLiteral :: "string \<Rightarrow> jsnum option" where
  "NonDecimalIntegerLiteral s =
     (case s of
        z # p # ds \<Rightarrow>
          if z = CHR ''0'' \<and> (p = CHR ''x'' \<or> p = CHR ''X'')
            then Some (radixLiteral 16 ''0123456789abcdefABCDEF'' ds)
          else if z = CHR ''0'' \<and> (p = CHR ''o'' \<or> p = CHR ''O'')
            then Some (radixLiteral 8 ''01234567'' ds)
          else if z = CHR ''0'' \<and> (p = CHR ''b'' \<or> p = CHR ''B'')
            then Some (radixLiteral 2 ''01'' ds)
          else None
      | _ \<Rightarrow> None)"

definition negate :: "jsnum \<Rightarrow> jsnum" where
  "negate n =
     (case n of Finite v \<Rightarrow> Finite (- v) | PosInfinity \<Rightarrow> NegInfinity
      | NegInfinity \<Rightarrow> PosInfinity | NaN \<Rightarrow> NaN)"

text \<open>
  \<open>Number(str)\<close>: the string is trimmed; the empty string is 0; a literal of the grammar
  has its value; everything else is \<open>NaN\<close>.
\<close>

definition Number :: "string \<Rightarrow> jsnum" where
  "Number str =
     (let s = trim str in
      if s = [] then Finite 0
      else (case NonDecimalIntegerLiteral s of
              Some n \<Rightarrow> n
            | None \<Rightarrow>
                (case s of
                   [] \<Rightarrow> Finite 0
                 | c # t \<Rightarrow>
                     if c = CHR ''+'' then StrUnsignedDecimalLiteral t
                     else if c = CHR ''-'' then negate (StrUnsignedDecimalLiteral t)
                     else StrUnsignedDecimalLiteral s)))"

section \<open>The text-generation client (geminiService)\<close>

text \<open>
  What \<open>await fetch(...)\<close> gives: the promise is rejected (no response at all), or there
  is a response whose \<open>ok\<close> is false, with the \<open>error.message\<close> of its JSON body when it has
  one and its \<open>statusText\<close>, or a response whose \<open>ok\<close> is true, with its body parsed as the
  declared type.
\<close>

datatype 'a response = FetchRejected string | StatusNotOk "string option" string | StatusOk 'a

record ModelInfo =
  name :: string
  supportedGenerationMethods :: "string list option"

record Part =
  part_text :: string

record Content =
  parts :: "Part list"

record Candidate =
  content :: Content

record GeminiResponse =
  candidates :: "Candidate list option"

record GenerationConfig =
  temperature :: number
  maxOutputTokens :: nat
  topP :: number
  topK :: nat

record GenerateRequest =
  contents :: string
  generationConfig :: GenerationConfig
  safetySettings :: "(string \<times> string) list"

datatype request = GET string | POST string GenerateRequest

text \<open>
  The backend answers a request by its URL and body. Every request sent is appended to a
  log, the state the client threads.
\<close>

record network =
  listModels :: "string \<Rightarrow> ModelInfo list response"
  generateContent :: "string \<Rightarrow> GenerateRequest \<Rightarrow> GeminiResponse response"

definition MODELS_LIST_URL :: "string \<Rightarrow> string" where
  "MODELS_LIST_URL key = ''https://generativelanguage.googleapis.com/v1beta/models?key='' @ key"

text \<open>\<open>err?.error?.message || resp.statusText\<close>\<close>

definition error_message :: "string option \<Rightarrow> string \<Rightarrow> string" where
  "error_message m statusText =
     (case m of None \<Rightarrow> statusText | Some x \<Rightarrow> if x = [] then statusText else x)"

definition listAvailableModels ::
  "string \<Rightarrow> network \<Rightarrow> request list \<Rightarrow> (error + ModelInfo list) \<times> request list" where
  "listAvailableModels key net sent =
     (let sent1 = sent @ [GET (MODELS_LIST_URL key)] in
      case listModels net (MODELS_LIST_URL key) of
        FetchRejected m \<Rightarrow> (Inl (TypeError m), sent1)
      | StatusNotOk m statusText \<Rightarrow>
          (Inl (Error (''Failed to list Gemini models: '' @ error_message m statusText)), sent1)
      | StatusOk models \<Rightarrow> (Inr models, sent1))"

definition pickModelWithGenerateContent ::
  "string \<Rightarrow> network \<Rightarrow> request list \<Rightarrow> (error + string) \<times> request list" where
  "pickModelWithGenerateContent key net sent =
     (case listAvailableModels key net sent of
        (Inl e, sent1) \<Rightarrow> (Inl e, sent1)
      | (Inr models, sent1) \<Rightarrow>
          let usable =
                filter (\<lambda>m. case supportedGenerationMethods m of
                               None \<Rightarrow> False
                             | Some methods \<Rightarrow> ''generateContent'' \<in> set methods) models
          in if length usable = 0
             then (Inl (Error ''No model supports generateContent in this project.''), sent1)
             else (Inr (name (usable ! 0)), sent1))"

definition request_body :: "string \<Rightarrow> GenerateRequest" where
  "request_body prompt =
     \<lparr>contents = prompt,
      generationConfig = \<lparr>temperature = 7 / 10, maxOutputTokens = 500, topP = 95 / 100, topK = 40\<rparr>,
      safetySettings =
        [(''HARM_CATEGORY_HARASSMENT'', ''BLOCK_NONE''),
         (''HARM_CATEGORY_HATE_SPEECH'', ''BLOCK_NONE''),
         (''HARM_CATEGORY_SEXUALLY_EXPLICIT'', ''BLOCK_NONE''),
         (''HARM_CATEGORY_DANGEROUS_CONTENT'', ''BLOCK_NONE'')]\<rparr>"

text \<open>
  \<open>data.candidates[0].content.parts[0].text.trim()\<close>: with no part, \<open>parts[0]\<close> is
  \<open>undefined\<close> and reading \<open>text\<close> of it throws a \<open>TypeError\<close>.
\<close>

definition callGeminiAPI ::
  "string \<Rightarrow> network \<Rightarrow> string \<Rightarrow> request list \<Rightarrow> (error + string) \<times> request list" where
  "callGeminiAPI key net prompt sent =
     (case pickModelWithGenerateContent key net sent of
        (Inl e, sent1) \<Rightarrow> (Inl e, sent1)
      | (Inr modelName, sent1) \<Rightarrow>
          let url = ''https://generativelanguage.googleapis.com/v1beta/'' @ modelName
                      @ '':generateContent?key='' @ key;
              body = request_body prompt;
              sent2 = sent1 @ [POST url body]
          in case generateContent net url body of
               FetchRejected m \<Rightarrow> (Inl (TypeError m), sent2)
             | StatusNotOk m statusText \<Rightarrow>
                 (Inl (Error (''Gemini API error: '' @ error_message m statusText)), sent2)
             | StatusOk data \<Rightarrow>
                 (case candidates data of
                    None \<Rightarrow> (Inl (Error ''No response returned from Gemini API''), sent2)
                  | Some cs \<Rightarrow>
                      if length cs = 0
                      then (Inl (Error ''No response returned from Gemini API''), sent2)
                      else (case parts (content (cs ! 0)) of
                              [] \<Rightarrow>
                                (Inl (TypeError ''Cannot read properties of undefined (reading text)''),
                                 sent2)
                            | p # ps \<Rightarrow> (Inr (trim (part_text p)), sent2))))"

section \<open>The synthetic predictor (DataTable.tsx, generateStaticPredictions)\<close>

record Location =
  name :: string
  lat :: number
  lon :: number
  zone :: string
  baseNoise :: number

record Limits =
  day :: number
  night :: number

record MapDataPoint =
  location :: string
  latitude :: number
  longitude :: number
  predicted_noise :: number
  zone_type :: string
  noise_limit :: number
  is_violation :: bool
  confidence :: number

definition locations :: "Location list" where
  "locations =
    [\<lparr>name = ''nsit'', lat = 2861 / 100, lon = 7704 / 100, zone = ''Silence Zone'', baseNoise = 65\<rparr>,
     \<lparr>name = ''ito'', lat = 28631 / 1000, lon = 77248 / 1000, zone = ''Commercial'', baseNoise = 76\<rparr>,
     \<lparr>name = ''punjabi'', lat = 2866 / 100, lon = 7712 / 100, zone = ''Residential'', baseNoise = 72\<rparr>,
     \<lparr>name = ''isbt'', lat = 28667 / 1000, lon = 77231 / 1000, zone = ''Commercial'', baseNoise = 75\<rparr>,
     \<lparr>name = ''mandir_marg'', lat = 28628 / 1000, lon = 77203 / 1000, zone = ''Commercial'', baseNoise = 68\<rparr>,
     \<lparr>name = ''civil_lines'', lat = 28678 / 1000, lon = 77222 / 1000, zone = ''Residential'', baseNoise = 70\<rparr>,
     \<lparr>name = ''CPCBHQ'', lat = 2859 / 100, lon = 7725 / 100, zone = ''Commercial'', baseNoise = 66\<rparr>,
     \<lparr>name = ''Dilshad'', lat = 2868 / 100, lon = 7731 / 100, zone = ''Residential'', baseNoise = 64\<rparr>,
     \<lparr>name = ''centralschool'', lat = 2853 / 100, lon = 7725 / 100, zone = ''Silence Zone'', baseNoise = 62\<rparr>]"

definition noiseLimits :: "(string \<times> Limits) list" where
  "noiseLimits =
    [(''Industrial'', \<lparr>day = 75, night = 70\<rparr>),
     (''Commercial'', \<lparr>day = 65, night = 55\<rparr>),
     (''Residential'', \<lparr>day = 55, night = 45\<rparr>),
     (''Silence Zone'', \<lparr>day = 50, night = 40\<rparr>)]"

text \<open>The local bindings of the \<open>map\<close> callback, in the order the source computes them.\<close>

definition timeFactor :: "number \<Rightarrow> number" where
  "timeFactor hour =
     (if hour \<ge> 8 \<and> hour \<le> 10 then 9 / 2
      else if hour \<ge> 17 \<and> hour \<le> 20 then 6
      else if hour \<ge> 0 \<and> hour \<le> 5 then - 8
      else 0)"

definition dayFactor :: "number \<Rightarrow> number" where
  "dayFactor dayOfWeek = (if dayOfWeek \<ge> 5 then - (7 / 2) else 0)"

definition environmentalNoise :: "Location \<Rightarrow> number \<Rightarrow> number \<Rightarrow> number" where
  "environmentalNoise loc hour dayOfWeek =
     add64 (add64 (baseNoise loc) (timeFactor hour)) (dayFactor dayOfWeek)"

text \<open>
  \<open>predictedNoise\<close> before \<open>toFixed\<close>, every operation rounded to binary64; \<open>r\<close> is the
  value \<open>Math.random()\<close> returned.
\<close>

definition predictedNoise :: "Location \<Rightarrow> number \<Rightarrow> number \<Rightarrow> number \<Rightarrow> number \<Rightarrow> number" where
  "predictedNoise loc hour dayOfWeek noiseLag r =
     add64
       (add64 (mul64 (lit64 (3 / 5)) noiseLag)
              (mul64 (lit64 (2 / 5)) (environmentalNoise loc hour dayOfWeek)))
       (sub64 (mul64 r 3) (3 / 2))"

text \<open>The confidence before \<open>toFixed\<close>: \<open>0.75 + Math.random() * 0.2\<close>, with draw \<open>r\<close>.\<close>

definition rawConfidence :: "number \<Rightarrow> number" where
  "rawConfidence r = add64 (3 / 4) (mul64 r (lit64 (1 / 5)))"

definition isNight :: "number \<Rightarrow> bool" where
  "isNight hour \<longleftrightarrow> hour \<ge> 22 \<or> hour < 6"

text \<open>
  The callback for one location. \<open>noiseLimits[loc.zone]\<close> is \<open>undefined\<close> for a zone that
  is not a key of the table, and reading \<open>day\<close> or \<open>night\<close> of it throws a \<open>TypeError\<close>.
\<close>

definition predict ::
  "number \<Rightarrow> number \<Rightarrow> number \<Rightarrow> Location \<Rightarrow> rng \<Rightarrow> error + (MapDataPoint \<times> rng)" where
  "predict hour dayOfWeek noiseLag loc s =
     (case Math_random s of (r1, s1) \<Rightarrow>
        (case map_of noiseLimits (zone loc) of
           None \<Rightarrow> Inl (TypeError ''Cannot read properties of undefined'')
         | Some limits \<Rightarrow>
             (case Math_random s1 of (r2, s2) \<Rightarrow>
                Inr (\<lparr>location = name loc,
                      latitude = lat loc,
                      longitude = lon loc,
                      predicted_noise = toFixed 2 (predictedNoise loc hour dayOfWeek noiseLag r1),
                      zone_type = zone loc,
                      noise_limit = (if isNight hour then night limits else day limits),
                      is_violation =
                        (predictedNoise loc hour dayOfWeek noiseLag r1
                           > (if isNight hour then night limits else day limits)),
                      confidence = toFixed 2 (rawConfidence r2)\<rparr>, s2))))"

definition generateStaticPredictions ::
  "number \<Rightarrow> number \<Rightarrow> number \<Rightarrow> rng \<Rightarrow> error + (MapDataPoint list \<times> rng)" where
  "generateStaticPredictions hour dayOfWeek noiseLag s =
     Array_map (predict hour dayOfWeek noiseLag) locations s"

text \<open>The rows of a result; no rows when the call threw.\<close>

definition rows_of :: "error + (MapDataPoint list \<times> rng) \<Rightarrow> MapDataPoint list" where
  "rows_of res = (case res of Inl e \<Rightarrow> [] | Inr (rows, s) \<Rightarrow> rows)"

text \<open>
  The inputs the prediction tab produces: an hour of the day, a day of the week
  (Monday is 0), and one of the three presets of the previous noise level.
\<close>

definition valid_input :: "number \<Rightarrow> number \<Rightarrow> number \<Rightarrow> bool" where
  "valid_input hour dayOfWeek noiseLag \<longleftrightarrow>
     of_int \<lfloor>hour\<rfloor> = hour \<and> 0 \<le> hour \<and> hour \<le> 23
     \<and> of_int \<lfloor>dayOfWeek\<rfloor> = dayOfWeek \<and> 0 \<le> dayOfWeek \<and> dayOfWeek \<le> 6
     \<and> (noiseLag = 55 \<or> noiseLag = 65 \<or> noiseLag = 75)"

text \<open>
  The environmental noise as the specification words it: the base noise of the location,
  plus 4.5 for an hour in [8, 10], 6.0 in [17, 20], -8.0 in [0, 5], and minus 3.5 on a
  weekend day.
\<close>

definition spec_envNoise :: "number \<Rightarrow> number \<Rightarrow> number \<Rightarrow> number" where
  "spec_envNoise base hour dayOfWeek =
     base
     + (if hour \<in> {8..10} then 9 / 2 else if hour \<in> {17..20} then 6
        else if hour \<in> {0..5} then - 8 else 0)
     + (if dayOfWeek \<ge> 5 then - (7 / 2) else 0)"

section \<open>The record parser (dataUtils, parseCSV)\<close>

text \<open>
  A cell of a parsed row is a string or a number; a row is the object the loop fills,
  with its own properties as a finite map from header names to cells.
\<close>

datatype cell = StringCell string | NumberCell jsnum

type_synonym row = "string \<rightharpoonup> cell"

text \<open>\<open>values[index]\<close> is \<open>undefined\<close> outside the array; \<open>v || ''\<close> replaces it, and the empty string, by \<open>''\<close>.\<close>

definition element :: "string list \<Rightarrow> nat \<Rightarrow> string option" where
  "element values index = (if index < length values then Some (values ! index) else None)"

definition or_empty :: "string option \<Rightarrow> string" where
  "or_empty v = (case v of None \<Rightarrow> [] | Some x \<Rightarrow> if x = [] then [] else x)"

text \<open>The cell stored for a value: the number when the value is not empty and not \<open>NaN\<close>.\<close>

definition coerce :: "string \<Rightarrow> cell" where
  "coerce value =
     (let numValue = Number value
      in if value \<noteq> [] \<and> \<not> isNaN numValue then NumberCell numValue else StringCell value)"

text \<open>
  \<open>row[header] = cell\<close> on the plain object \<open>row\<close>. The name \<open>__proto__\<close> is the accessor
  inherited from \<open>Object.prototype\<close>: its setter ignores a string or a number, and no
  entry is stored.
\<close>

definition set_property :: "row \<Rightarrow> string \<Rightarrow> cell \<Rightarrow> row" where
  "set_property r header c = (if header = ''__proto__'' then r else r(header \<mapsto> c))"

text \<open>\<open>headers.forEach((header, index) => ...)\<close>, from position \<open>index\<close> on.\<close>

fun forEach_header :: "string list \<Rightarrow> nat \<Rightarrow> string list \<Rightarrow> row \<Rightarrow> row" where
  "forEach_header [] index values r = r"
| "forEach_header (header # headers) index values r =
     forEach_header headers (Suc index) values
       (set_property r header (coerce (or_empty (element values index))))"

text \<open>The body of the \<open>for\<close> loop over the lines after the header; \<open>data\<close> collects the rows.\<close>

fun parse_lines :: "string list \<Rightarrow> string list \<Rightarrow> row list \<Rightarrow> row list" where
  "parse_lines headers [] data = data"
| "parse_lines headers (l # ls) data =
     (let line = trim l in
      if line = [] then parse_lines headers ls data
      else
        let values = map trim (split (CHR '','') line)
        in parse_lines headers ls (data @ [forEach_header headers 0 values Map.empty]))"

definition parseCSV :: "string \<Rightarrow> row list" where
  "parseCSV csvText =
     (let lines = split (CHR 0x0A) (trim csvText) in
      if length lines < 2 then []
      else (case lines of
              [] \<Rightarrow> []
            | first # rest \<Rightarrow>
                let headers = map trim (split (CHR '','') first)
                in parse_lines headers rest []))"

section \<open>The metrics aggregator (dataUtils, calculateKeyMetrics)\<close>

text \<open>
  The records of the two input tables, with the fields their interfaces declare; a field
  declared \<open>number\<close> holds any value of that type.
\<close>

record StationRanking =
  Location :: string
  Average_LAeq_dBA :: jsnum
  Zone_Type :: string
  Day_Limit_dBA :: jsnum
  Night_Limit_dBA :: jsnum

record ExceedanceSummary =
  Location :: string
  Zone_Type :: string
  Day_Limit_dBA :: jsnum
  Night_Limit_dBA :: jsnum
  Exceedance_Count :: jsnum
  Total_Count :: jsnum
  Exceedance_Percentage :: jsnum

record KeyMetrics =
  loudestStation :: string
  highestAvgNoise :: jsnum
  avgViolationRate :: jsnum

definition calculateKeyMetrics :: "StationRanking list \<Rightarrow> ExceedanceSummary list \<Rightarrow> KeyMetrics" where
  "calculateKeyMetrics stationRankings exceedanceSummary =
     (if length stationRankings = 0 \<or> length exceedanceSummary = 0 then
        \<lparr>loudestStation = ''N/A'', highestAvgNoise = Finite 0, avgViolationRate = Finite 0\<rparr>
      else
        let loudest = StationRanking.Location (stationRankings ! 0);
            highest = Average_LAeq_dBA (stationRankings ! 0);
            totalViolationRate =
              foldl (\<lambda>sum station. js_add sum (Exceedance_Percentage station)) (Finite 0)
                exceedanceSummary;
            avg = js_div_length totalViolationRate (length exceedanceSummary)
        in \<lparr>loudestStation = loudest,
            highestAvgNoise = js_toFixed 1 highest,
            avgViolationRate = js_toFixed 1 avg\<rparr>)"

text \<open>
  The unweighted arithmetic mean of the specification, in exact arithmetic, over the
  values of the finite percentages.
\<close>

definition finite_value :: "jsnum \<Rightarrow> rat" where
  "finite_value a = (case a of Finite x \<Rightarrow> x | _ \<Rightarrow> 0)"

definition spec_mean :: "ExceedanceSummary list \<Rightarrow> rat" where
  "spec_mean exceedanceSummary =
     sum_list (map (\<lambda>station. finite_value (Exceedance_Percentage station)) exceedanceSummary)
       / of_nat (length exceedanceSummary)"

section \<open>Rounding to binary64\<close>

lemma pow2_less_imp_less: "(2::rat) powi a < 2 powi b \<Longrightarrow> a < b"
proof (rule ccontr)
  assume lt: "(2::rat) powi a < 2 powi b" and "\<not> a < b"
  then have "b \<le> a" by simp
  then have "(2::rat) powi b \<le> 2 powi a" by (rule power_int_increasing) simp
  with lt show False by simp
qed

lemma finite_exponents:
  "finite (insert (- 1022) {e \<in> {- 1022..1023}. 2 powi e \<le> \<bar>x\<bar>})" for x :: rat
proof -
  have "{e \<in> {- 1022..1023}. (2::rat) powi e \<le> \<bar>x\<bar>} \<subseteq> {- 1022..1023}" by blast
  then have "finite {e \<in> {- 1022..1023}. (2::rat) powi e \<le> \<bar>x\<bar>}"
    by (rule finite_subset) simp
  then show ?thesis by (rule finite.insertI)
qed

lemma rne_error: "\<bar>of_int (rne x) - x\<bar> \<le> 1 / 2"
proof -
  have "of_int \<lfloor>x\<rfloor> \<le> x" "x < of_int \<lfloor>x\<rfloor> + 1" by linarith+
  then show ?thesis by (auto simp: rne_def Let_def)
qed

lemma rne_of_int [simp]: "rne (of_int m) = m"
  by (simp add: rne_def)

lemma rne_mono: "x \<le> y \<Longrightarrow> rne x \<le> rne y"
proof -
  assume xy: "x \<le> y"
  have le: "\<lfloor>x\<rfloor> \<le> \<lfloor>y\<rfloor>" using xy by (rule floor_mono)
  have bx: "rne x \<le> \<lfloor>x\<rfloor> + 1" and by': "\<lfloor>y\<rfloor> \<le> rne y"
    by (simp_all add: rne_def Let_def)
  show ?thesis
  proof (cases "\<lfloor>x\<rfloor> = \<lfloor>y\<rfloor>")
    case True
    then have "x - of_int \<lfloor>x\<rfloor> \<le> y - of_int \<lfloor>y\<rfloor>" using xy by simp
    then show ?thesis using True by (auto simp: rne_def Let_def)
  next
    case False
    then have "\<lfloor>x\<rfloor> + 1 \<le> \<lfloor>y\<rfloor>" using le by simp
    then show ?thesis using bx by' by linarith
  qed
qed

lemma rne_neg: "rne (- x) = - rne x"
proof (cases "x \<in> \<int>")
  case True
  then obtain m where m: "x = of_int m" by (auto elim: Ints_cases)
  then have "- x = of_int (- m)" by simp
  then show ?thesis unfolding m by (simp only: rne_of_int)
next
  case False
  then have "x \<noteq> of_int \<lfloor>x\<rfloor>" by (metis Ints_of_int)
  then have "\<lceil>x\<rceil> = \<lfloor>x\<rfloor> + 1" by (simp add: ceiling_altdef)
  then have fl: "\<lfloor>- x\<rfloor> = - \<lfloor>x\<rfloor> - 1" using ceiling_def [of x] by simp
  have "of_int \<lfloor>x\<rfloor> \<le> x" "x < of_int \<lfloor>x\<rfloor> + 1" by linarith+
  then show ?thesis by (auto simp: rne_def Let_def fl)
qed

lemma expo_le:
  assumes "- 1022 \<le> k" and "\<bar>x\<bar> < 2 powi (k + 1)"
  shows "expo x \<le> k"
proof -
  have "e \<le> k" if "e \<in> insert (- 1022) {e \<in> {- 1022..1023}. 2 powi e \<le> \<bar>x\<bar>}" for e
  proof (cases "e = - 1022")
    case True
    then show ?thesis using assms(1) by simp
  next
    case False
    then have "(2::rat) powi e \<le> \<bar>x\<bar>" using that by simp
    then have "(2::rat) powi e < 2 powi (k + 1)" using assms(2) by simp
    then have "e < k + 1" by (rule pow2_less_imp_less)
    then show ?thesis by simp
  qed
  then show ?thesis unfolding expo_def
    by (intro Max.boundedI finite_exponents insert_not_empty)
qed

lemma expo_ge: "- 1022 \<le> expo x"
  unfolding expo_def by (rule Max_ge [OF finite_exponents]) simp

lemma expo_le_1023: "expo x \<le> 1023"
  unfolding expo_def by (intro Max.boundedI finite_exponents insert_not_empty) auto

lemma expo_eq:
  assumes "- 1022 \<le> e" and "e \<le> 1023" and "2 powi e \<le> \<bar>x\<bar>" and "\<bar>x\<bar> < 2 powi (e + 1)"
  shows "expo x = e"
proof (rule antisym)
  show "expo x \<le> e" by (rule expo_le [OF assms(1,4)])
  have "e \<in> insert (- 1022) {e \<in> {- 1022..1023}. 2 powi e \<le> \<bar>x\<bar>}" using assms by simp
  then show "e \<le> expo x" unfolding expo_def by (rule Max_ge [OF finite_exponents])
qed

lemma expo_abs: "expo (- x) = expo x"
  by (simp add: expo_def)

lemma expo_mono: "\<bar>x\<bar> \<le> \<bar>y\<bar> \<Longrightarrow> expo x \<le> expo y"
  unfolding expo_def
  by (intro Max_mono finite_exponents insert_not_empty) auto

lemma expo_upper:
  assumes "expo x < 1023"
  shows "\<bar>x\<bar> < 2 powi (expo x + 1)"
proof (rule ccontr)
  assume "\<not> \<bar>x\<bar> < 2 powi (expo x + 1)"
  then have "2 powi (expo x + 1) \<le> \<bar>x\<bar>" by simp
  then have "expo x + 1 \<in> insert (- 1022) {e \<in> {- 1022..1023}. 2 powi e \<le> \<bar>x\<bar>}"
    using assms expo_ge [of x] by simp
  then have "expo x + 1 \<le> expo x" unfolding expo_def by (rule Max_ge [OF finite_exponents])
  then show False by simp
qed

lemma expo_lower:
  assumes "- 1022 < expo x"
  shows "2 powi (expo x) \<le> \<bar>x\<bar>"
proof -
  have "expo x \<in> insert (- 1022) {e \<in> {- 1022..1023}. 2 powi e \<le> \<bar>x\<bar>}"
    unfolding expo_def by (intro Max_in finite_exponents insert_not_empty)
  then show ?thesis using assms by auto
qed

lemma ulp_pos: "0 < ulp x"
  by (simp add: ulp_def)

lemma pow2_split:
  "9007199254740992 * (2::rat) powi (e - 52) = 2 powi (e + 1)"
  "4503599627370496 * (2::rat) powi (e - 52) = 2 powi e"
proof -
  have "(2::rat) powi 53 * 2 powi (e - 52) = 2 powi (53 + (e - 52))"
    by (rule power_int_add [symmetric]) simp
  also have "53 + (e - 52) = e + 1" by simp
  finally show "9007199254740992 * (2::rat) powi (e - 52) = 2 powi (e + 1)" by simp
  have "(2::rat) powi 52 * 2 powi (e - 52) = 2 powi (52 + (e - 52))"
    by (rule power_int_add [symmetric]) simp
  also have "52 + (e - 52) = e" by simp
  finally show "4503599627370496 * (2::rat) powi (e - 52) = 2 powi e" by simp
qed

text \<open>Rounding moves a number below \<open>2^(k+1)\<close> by at most \<open>2^(k-53)\<close>.\<close>

lemma fl_error:
  assumes "- 1022 \<le> k" and "\<bar>x\<bar> < 2 powi (k + 1)"
  shows "\<bar>fl x - x\<bar> \<le> 2 powi (k - 53)"
proof -
  let ?u = "ulp x"
  have u: "0 < ?u" by (rule ulp_pos)
  have "fl x - x = (of_int (rne (x / ?u)) - x / ?u) * ?u" using u by (simp add: fl_def algebra_simps)
  then have "\<bar>fl x - x\<bar> = \<bar>of_int (rne (x / ?u)) - x / ?u\<bar> * ?u" using u by (simp add: abs_mult)
  also have "\<dots> \<le> 1 / 2 * ?u" using rne_error [of "x / ?u"] u by (intro mult_right_mono) simp_all
  also have "1 / 2 * ?u = 2 powi (expo x - 53)"
  proof -
    have "(2::rat) powi (expo x - 52) = 2 powi (expo x - 53 + 1)" by simp
    also have "\<dots> = 2 powi (expo x - 53) * 2" by (subst power_int_add) simp_all
    finally show ?thesis by (simp add: ulp_def)
  qed
  also have "\<dots> \<le> 2 powi (k - 53)" using expo_le [OF assms] by (intro power_int_increasing) simp_all
  finally show ?thesis .
qed

text \<open>The rounding of a number whose binary exponent is known.\<close>

lemma fl_eval:
  assumes "- 1022 \<le> e" and "e \<le> 1023" and "2 powi e \<le> \<bar>x\<bar>" and "\<bar>x\<bar> < 2 powi (e + 1)"
  shows "fl x = of_int (rne (x / 2 powi (e - 52))) * 2 powi (e - 52)"
  by (simp add: fl_def ulp_def expo_eq [OF assms])

lemma fl_neg: "fl (- x) = - fl x"
  by (simp add: fl_def ulp_def expo_abs rne_neg)

lemma fl_zero [simp]: "fl 0 = 0"
  by (simp add: fl_def rne_def)

lemma fl_mono_nonneg:
  assumes "0 \<le> x" and "x \<le> y"
  shows "fl x \<le> fl y"
proof -
  have le: "expo x \<le> expo y" using assms by (intro expo_mono) simp
  show ?thesis
  proof (cases "expo x = expo y")
    case True
    have "x / ulp x \<le> y / ulp x" using assms(2) ulp_pos [of x] by (simp add: divide_right_mono)
    then have "rne (x / ulp x) \<le> rne (y / ulp x)" by (rule rne_mono)
    then have "(of_int (rne (x / ulp x)) :: rat) \<le> of_int (rne (y / ulp x))" by simp
    then have "of_int (rne (x / ulp x)) * ulp x \<le> of_int (rne (y / ulp x)) * ulp x"
      using ulp_pos [of x] by (intro mult_right_mono) simp_all
    then show ?thesis using True by (simp add: fl_def ulp_def)
  next
    case False
    then have lt: "expo x < expo y" using le by simp
    have "expo x < 1023" using lt expo_le_1023 [of y] by simp
    then have ux: "\<bar>x\<bar> < 2 powi (expo x + 1)" by (rule expo_upper)
    have "x / ulp x \<le> 9007199254740992"
    proof -
      have "x < 9007199254740992 * ulp x" using ux assms(1) by (simp add: ulp_def pow2_split)
      then show ?thesis using ulp_pos [of x] by (simp add: pos_divide_le_eq less_imp_le)
    qed
    then have "rne (x / ulp x) \<le> rne (of_int 9007199254740992)" by (intro rne_mono) simp
    then have "rne (x / ulp x) \<le> 9007199254740992" by (simp only: rne_of_int)
    then have "(of_int (rne (x / ulp x)) :: rat) \<le> of_int 9007199254740992"
      by (simp only: of_int_le_iff)
    then have "fl x \<le> 9007199254740992 * ulp x"
      unfolding fl_def using ulp_pos [of x] by (intro mult_right_mono) simp_all
    then have a: "fl x \<le> 2 powi (expo x + 1)" by (simp add: ulp_def pow2_split)
    have "- 1022 < expo y" using lt expo_ge [of x] by simp
    then have ly: "2 powi (expo y) \<le> \<bar>y\<bar>" by (rule expo_lower)
    have "0 \<le> y" using assms by simp
    have "4503599627370496 \<le> y / ulp y"
    proof -
      have "4503599627370496 * ulp y \<le> y" using ly \<open>0 \<le> y\<close> by (simp add: ulp_def pow2_split)
      then show ?thesis using ulp_pos [of y] by (simp add: pos_le_divide_eq)
    qed
    then have "rne (of_int 4503599627370496) \<le> rne (y / ulp y)" by (intro rne_mono) simp
    then have "4503599627370496 \<le> rne (y / ulp y)" by (simp only: rne_of_int)
    then have "(of_int 4503599627370496 :: rat) \<le> of_int (rne (y / ulp y))"
      by (simp only: of_int_le_iff)
    then have "4503599627370496 * ulp y \<le> fl y"
      unfolding fl_def using ulp_pos [of y] by (intro mult_right_mono) simp_all
    then have b: "2 powi (expo y) \<le> fl y" by (simp add: ulp_def pow2_split)
    have "(2::rat) powi (expo x + 1) \<le> 2 powi (expo y)"
      using lt by (intro power_int_increasing) simp_all
    with a b show ?thesis by linarith
  qed
qed

text \<open>Rounding keeps the order.\<close>

lemma fl_mono: "x \<le> y \<Longrightarrow> fl x \<le> fl y"
proof -
  assume xy: "x \<le> y"
  consider "0 \<le> x" | "y \<le> 0" | "x \<le> 0" "0 \<le> y" by linarith
  then show ?thesis
  proof cases
    case 1
    then show ?thesis using xy by (rule fl_mono_nonneg)
  next
    case 2
    then have "fl (- y) \<le> fl (- x)" using xy by (intro fl_mono_nonneg) simp_all
    then show ?thesis by (simp add: fl_neg)
  next
    case 3
    have "fl 0 \<le> fl y" using 3(2) by (intro fl_mono_nonneg) simp_all
    moreover have "fl 0 \<le> fl (- x)" using 3(1) by (intro fl_mono_nonneg) simp_all
    ultimately show ?thesis by (simp add: fl_neg)
  qed
qed

text \<open>A number with at most 53 significant bits, not below the subnormal unit, is its own rounding.\<close>

lemma fl_exact:
  assumes "x = of_int m * 2 powi j" and "\<bar>m\<bar> < 2 ^ 53" and "- 1074 \<le> j"
  shows "fl x = x"
proof -
  have "\<bar>x\<bar> = of_int \<bar>m\<bar> * 2 powi j" by (simp add: assms(1) abs_mult)
  also have "\<dots> < 2 ^ 53 * 2 powi j"
  proof -
    have "(of_int \<bar>m\<bar> :: rat) < of_int (2 ^ 53)" using assms(2) by (simp only: of_int_less_iff)
    then show ?thesis by (intro mult_strict_right_mono) simp_all
  qed
  also have "(2::rat) ^ 53 * 2 powi j = 2 powi (j + 52 + 1)"
    by (simp add: power_int_add)
  finally have "\<bar>x\<bar> < 2 powi (j + 52 + 1)" .
  moreover have "- 1022 \<le> j + 52" using assms(3) by simp
  ultimately have "expo x \<le> j + 52" by (intro expo_le)
  define e where "e = expo x"
  have "0 \<le> j - (e - 52)" using \<open>expo x \<le> j + 52\<close> by (simp add: e_def)
  then obtain n :: nat where "j - (e - 52) = int n" by (metis zero_le_imp_eq_int)
  then have n: "j = e - 52 + int n" by simp
  have "(2::rat) powi j = 2 powi (e - 52) * 2 powi (int n)"
    unfolding n by (rule power_int_add) simp
  then have "of_int m * (2::rat) powi j = of_int (m * 2 ^ n) * 2 powi (e - 52)" by simp
  then have x: "x = of_int (m * 2 ^ n) * ulp x" by (simp add: ulp_def e_def assms(1))
  have "x / ulp x = of_int (m * 2 ^ n) * ulp x / ulp x" using x by simp
  then have "x / ulp x = of_int (m * 2 ^ n)" using ulp_pos [of x] by simp
  then have "rne (x / ulp x) = m * 2 ^ n" by (simp only: rne_of_int)
  then have "fl x = of_int (m * 2 ^ n) * ulp x" by (simp add: fl_def)
  then show ?thesis using x by simp
qed

lemma fl_half_grid:
  assumes "2 * x \<in> \<int>" and "\<bar>x\<bar> \<le> 1000"
  shows "fl x = x"
proof -
  from assms(1) obtain m :: int where m: "2 * x = of_int m" by (auto elim: Ints_cases)
  then have "\<bar>(of_int m :: rat)\<bar> \<le> 2000" using assms(2) by linarith
  then have "\<bar>m\<bar> \<le> 2000" by (metis of_int_abs of_int_le_iff of_int_numeral)
  then have small: "\<bar>m\<bar> < 2 ^ 53" by simp
  have "x = of_int m * 2 powi (- 1)" using m by (simp add: power_int_minus field_simps)
  then show ?thesis using small by (rule fl_exact) simp
qed

text \<open>Below 256 in magnitude, rounding moves a number by at most \<open>2^-46\<close>.\<close>

lemma fl_small:
  assumes "\<bar>x\<bar> < 256"
  shows "x - 1 / 70368744177664 \<le> fl x" and "fl x \<le> x + 1 / 70368744177664"
proof -
  have "\<bar>x\<bar> < 2 powi (7 + 1)" using assms by simp
  then have "\<bar>fl x - x\<bar> \<le> 2 powi (7 - 53)" by (intro fl_error) simp_all
  then have "\<bar>fl x - x\<bar> \<le> 1 / 70368744177664" by (simp add: power_int_minus_divide)
  then show "x - 1 / 70368744177664 \<le> fl x" and "fl x \<le> x + 1 / 70368744177664" by linarith+
qed

lemma floor_numeral_divide: "\<lfloor>numeral a / numeral b :: rat\<rfloor> = numeral a div numeral b"
  using floor_divide_of_int_eq [of "numeral a" "numeral b", where ?'a = rat] by simp

text \<open>The literals \<open>0.6\<close>, \<open>0.4\<close> and \<open>0.2\<close> as binary64 values.\<close>

lemma lit64_3_5: "lit64 (3 / 5) = 5404319552844595 / 9007199254740992"
  unfolding lit64_def
  by (subst fl_eval [of "- 1"]) (simp_all add: rne_def Let_def floor_numeral_divide)

lemma lit64_2_5: "lit64 (2 / 5) = 3602879701896397 / 9007199254740992"
  unfolding lit64_def
  by (subst fl_eval [of "- 2"]) (simp_all add: rne_def Let_def floor_numeral_divide)

lemma lit64_1_5: "lit64 (1 / 5) = 3602879701896397 / 18014398509481984"
  unfolding lit64_def
  by (subst fl_eval [of "- 3"]) (simp_all add: rne_def Let_def floor_numeral_divide)

section \<open>Rounding to decimals\<close>

lemma toFixed_mono: "x \<le> y \<Longrightarrow> toFixed f x \<le> toFixed f y"
proof -
  assume xy: "x \<le> y"
  have p: "(0::rat) < 10 ^ f" by simp
  consider "y < 0" | "x < 0" "0 \<le> y" | "0 \<le> x" using xy by linarith
  then show ?thesis
  proof cases
    case 1
    then have "x < 0" using xy by simp
    have "(- y) * 10 ^ f + 1 / 2 \<le> (- x) * 10 ^ f + 1 / 2" using xy p by simp
    then have "\<lfloor>(- y) * 10 ^ f + 1 / 2\<rfloor> \<le> \<lfloor>(- x) * 10 ^ f + 1 / 2\<rfloor>" by (rule floor_mono)
    then have "(of_int \<lfloor>(- y) * 10 ^ f + 1 / 2\<rfloor> :: rat) / 10 ^ f
        \<le> of_int \<lfloor>(- x) * 10 ^ f + 1 / 2\<rfloor> / 10 ^ f"
      using p by (simp add: divide_right_mono)
    with 1 \<open>x < 0\<close> show ?thesis by (simp add: toFixed_def)
  next
    case 2
    have "0 \<le> (- x) * 10 ^ f" using 2 by (intro mult_nonneg_nonneg) simp_all
    then have "0 \<le> (- x) * 10 ^ f + 1 / 2" by linarith
    then have a: "0 \<le> \<lfloor>(- x) * 10 ^ f + 1 / 2\<rfloor>" by (simp only: zero_le_floor)
    have "0 \<le> y * 10 ^ f" using 2 by (intro mult_nonneg_nonneg) simp_all
    then have "0 \<le> y * 10 ^ f + 1 / 2" by linarith
    then have b: "0 \<le> \<lfloor>y * 10 ^ f + 1 / 2\<rfloor>" by (simp only: zero_le_floor)
    have "(0::rat) \<le> of_int \<lfloor>(- x) * 10 ^ f + 1 / 2\<rfloor> / 10 ^ f"
      using a by (intro divide_nonneg_nonneg) simp_all
    then have "toFixed f x \<le> 0" using 2 by (simp add: toFixed_def)
    moreover have "(0::rat) \<le> of_int \<lfloor>y * 10 ^ f + 1 / 2\<rfloor> / 10 ^ f"
      using b by (intro divide_nonneg_nonneg) simp_all
    then have "0 \<le> toFixed f y" using 2 by (simp add: toFixed_def not_less[symmetric])
    ultimately show ?thesis by simp
  next
    case 3
    then have "0 \<le> y" using xy by simp
    have "x * 10 ^ f + 1 / 2 \<le> y * 10 ^ f + 1 / 2" using xy p by simp
    then have "\<lfloor>x * 10 ^ f + 1 / 2\<rfloor> \<le> \<lfloor>y * 10 ^ f + 1 / 2\<rfloor>" by (rule floor_mono)
    then have "(of_int \<lfloor>x * 10 ^ f + 1 / 2\<rfloor> :: rat) / 10 ^ f
        \<le> of_int \<lfloor>y * 10 ^ f + 1 / 2\<rfloor> / 10 ^ f"
      using p by (simp add: divide_right_mono)
    with 3 \<open>0 \<le> y\<close> show ?thesis by (simp add: toFixed_def)
  qed
qed

text \<open>A number with at most \<open>f\<close> decimals is its own rounding.\<close>

lemma toFixed_grid: "toFixed f (of_int k / 10 ^ f) = of_int k / 10 ^ f"
proof -
  have p: "(0::rat) < 10 ^ f" by simp
  have fl: "\<And>j::int. \<lfloor>(of_int j :: rat) + 1 / 2\<rfloor> = j" by linarith
  show ?thesis
  proof (cases "k < 0")
    case True
    then have neg: "(of_int k :: rat) / 10 ^ f < 0" using p by (simp add: divide_neg_pos)
    have "(- (of_int k / 10 ^ f)) * 10 ^ f + 1 / 2 = (of_int (- k) :: rat) + 1 / 2" by simp
    then have "\<lfloor>(- ((of_int k :: rat) / 10 ^ f)) * 10 ^ f + 1 / 2\<rfloor> = - k" using fl by metis
    with neg show ?thesis by (simp add: toFixed_def)
  next
    case False
    then have nn: "\<not> (of_int k :: rat) / 10 ^ f < 0" using p by (simp add: not_less)
    have "(of_int k / 10 ^ f) * 10 ^ f + 1 / 2 = (of_int k :: rat) + 1 / 2" by simp
    then have "\<lfloor>((of_int k :: rat) / 10 ^ f) * 10 ^ f + 1 / 2\<rfloor> = k" using fl by metis
    with nn show ?thesis by (simp add: toFixed_def)
  qed
qed

lemma toFixed_Ints:
  assumes "x * 10 ^ f \<in> \<int>"
  shows "toFixed f x = x"
proof -
  from assms obtain k :: int where k: "x * 10 ^ f = of_int k" by (auto elim: Ints_cases)
  have "x = x * 10 ^ f / 10 ^ f" by simp
  then have "x = of_int k / 10 ^ f" using k by simp
  then show ?thesis using toFixed_grid [of f k] by simp
qed

lemma toFixed_lower: "a \<le> x \<Longrightarrow> a * 10 ^ f \<in> \<int> \<Longrightarrow> a \<le> toFixed f x"
  using toFixed_mono [of a x f] toFixed_Ints [of a f] by simp

lemma toFixed_upper: "x \<le> b \<Longrightarrow> b * 10 ^ f \<in> \<int> \<Longrightarrow> toFixed f x \<le> b"
  using toFixed_mono [of x b f] toFixed_Ints [of b f] by simp

lemma abs_scaled: "\<bar>a - y * 10 ^ f\<bar> / 10 ^ f = \<bar>a / 10 ^ f - y\<bar>" for a y :: rat
proof -
  have "a / 10 ^ f - y = (a - y * 10 ^ f) / 10 ^ f" by (simp add: diff_divide_distrib)
  then have "\<bar>a / 10 ^ f - y\<bar> = \<bar>(a - y * 10 ^ f) / 10 ^ f\<bar>" by (rule arg_cong)
  also have "\<dots> = \<bar>a - y * 10 ^ f\<bar> / \<bar>10 ^ f\<bar>" by (rule abs_divide)
  also have "\<bar>(10::rat) ^ f\<bar> = 10 ^ f" by simp
  finally show ?thesis by simp
qed

text \<open>Rounding to \<open>f\<close> decimals moves a number by at most half a unit of the last decimal.\<close>

lemma toFixed_error: "\<bar>toFixed f x - x\<bar> \<le> 1 / (2 * 10 ^ f)"
proof -
  have p: "(0::rat) < 10 ^ f" by simp
  have near: "\<bar>of_int \<lfloor>y * 10 ^ f + 1 / 2\<rfloor> / 10 ^ f - y\<bar> \<le> 1 / (2 * 10 ^ f)" for y :: rat
  proof -
    let ?n = "\<lfloor>y * 10 ^ f + 1 / 2\<rfloor>"
    have lo: "of_int ?n \<le> y * 10 ^ f + 1 / 2" by (rule of_int_floor_le)
    have hi: "y * 10 ^ f + 1 / 2 < of_int ?n + 1" by (rule floor_correct [THEN conjunct2, simplified])
    have "\<bar>of_int ?n - y * 10 ^ f\<bar> \<le> 1 / 2" using lo hi by linarith
    then have "\<bar>of_int ?n - y * 10 ^ f\<bar> / 10 ^ f \<le> (1 / 2) / 10 ^ f"
      by (rule divide_right_mono) simp
    moreover have "\<bar>of_int ?n - y * 10 ^ f\<bar> / 10 ^ f = \<bar>of_int ?n / 10 ^ f - y\<bar>"
      by (rule abs_scaled)
    ultimately show ?thesis by simp
  qed
  show ?thesis
  proof (cases "x < 0")
    case True
    have "\<bar>toFixed f x - x\<bar> = \<bar>of_int \<lfloor>(- x) * 10 ^ f + 1 / 2\<rfloor> / 10 ^ f - (- x)\<bar>"
      using True by (simp add: toFixed_def abs_minus_commute add.commute)
    then show ?thesis using near [of "- x"] by simp
  next
    case False
    then show ?thesis using near [of x] by (simp add: toFixed_def)
  qed
qed

text \<open>A rounding to \<open>f\<close> decimals has \<open>f\<close> decimals.\<close>

lemma toFixed_decimals: "toFixed f x * 10 ^ f \<in> \<int>"
  by (simp add: toFixed_def)

lemma Ints_gt_minus_one:
  assumes "z \<in> \<int>" and "- 1 < z"
  shows "(0::rat) \<le> z"
proof -
  from assms(1) obtain k :: int where k: "z = of_int k" by (auto elim: Ints_cases)
  then have "(of_int (- 1) :: rat) < of_int k" using assms(2) by simp
  then have "- 1 < k" by (simp only: of_int_less_iff)
  then show ?thesis by (simp add: k)
qed

text \<open>
  A number within half a unit of the last decimal of a bound with \<open>f\<close> decimals is
  rounded to the right side of the bound.
\<close>

lemma toFixed_lower_slack:
  assumes "a * 10 ^ f \<in> \<int>" and "a - 1 / (2 * 10 ^ f) < x"
  shows "a \<le> toFixed f x"
proof -
  have p: "(0::rat) < 10 ^ f" by simp
  have "toFixed f x - x \<ge> - (1 / (2 * 10 ^ f))" using toFixed_error [of f x] by linarith
  then have "toFixed f x - a > - (1 / (2 * 10 ^ f)) - 1 / (2 * 10 ^ f)" using assms(2) by linarith
  then have "toFixed f x - a > - (1 / 10 ^ f)" by (simp add: field_simps)
  then have "(toFixed f x - a) * 10 ^ f > - (1 / 10 ^ f) * 10 ^ f"
    using p by (intro mult_strict_right_mono)
  then have gt: "- 1 < (toFixed f x - a) * 10 ^ f" by simp
  have "(toFixed f x - a) * 10 ^ f = toFixed f x * 10 ^ f - a * 10 ^ f" by (simp add: algebra_simps)
  then have "(toFixed f x - a) * 10 ^ f \<in> \<int>"
    using toFixed_decimals [of f x] assms(1) by (simp only: Ints_diff)
  then have "0 \<le> (toFixed f x - a) * 10 ^ f" using gt by (rule Ints_gt_minus_one)
  then have "0 \<le> toFixed f x - a" using p by (simp add: zero_le_mult_iff)
  then show ?thesis by simp
qed

lemma toFixed_upper_slack:
  assumes "b * 10 ^ f \<in> \<int>" and "x < b + 1 / (2 * 10 ^ f)"
  shows "toFixed f x \<le> b"
proof -
  have p: "(0::rat) < 10 ^ f" by simp
  have "toFixed f x - x \<le> 1 / (2 * 10 ^ f)" using toFixed_error [of f x] by linarith
  then have "b - toFixed f x > - (1 / (2 * 10 ^ f)) - 1 / (2 * 10 ^ f)" using assms(2) by linarith
  then have "b - toFixed f x > - (1 / 10 ^ f)" by (simp add: field_simps)
  then have "(b - toFixed f x) * 10 ^ f > - (1 / 10 ^ f) * 10 ^ f"
    using p by (intro mult_strict_right_mono)
  then have gt: "- 1 < (b - toFixed f x) * 10 ^ f" by simp
  have "(b - toFixed f x) * 10 ^ f = b * 10 ^ f - toFixed f x * 10 ^ f" by (simp add: algebra_simps)
  then have "(b - toFixed f x) * 10 ^ f \<in> \<int>"
    using toFixed_decimals [of f x] assms(1) by (simp only: Ints_diff)
  then have "0 \<le> (b - toFixed f x) * 10 ^ f" using gt by (rule Ints_gt_minus_one)
  then have "0 \<le> b - toFixed f x" using p by (simp add: zero_le_mult_iff)
  then show ?thesis by simp
qed

section \<open>The rows of a prediction\<close>

lemma valid_rng_snth: "valid_rng s \<Longrightarrow> 0 \<le> s !! n \<and> s !! n < 1"
  by (simp add: valid_rng_def)

text \<open>
  A callback that succeeds on every element and draws exactly two random numbers gives
  element \<open>i\<close> the draws \<open>2 i\<close> and \<open>2 i + 1\<close> of the source.
\<close>

lemma Array_map_two_draws:
  assumes "\<And>x s. x \<in> set xs \<Longrightarrow> \<exists>y. f x s = Inr (y, stl (stl s)) \<and> Q x (shd s) (shd (stl s)) y"
  shows "\<exists>ys. Array_map f xs s = Inr (ys, sdrop (2 * length xs) s) \<and> length ys = length xs
           \<and> (\<forall>i < length xs. Q (xs ! i) (s !! (2 * i)) (s !! (2 * i + 1)) (ys ! i))"
  using assms
proof (induction xs arbitrary: s)
  case Nil
  then show ?case by simp
next
  case (Cons x xs)
  from Cons.prems [of x s] obtain y where
    y: "f x s = Inr (y, stl (stl s))" "Q x (shd s) (shd (stl s)) y" by auto
  have "\<exists>ys. Array_map f xs (stl (stl s)) = Inr (ys, sdrop (2 * length xs) (stl (stl s)))
           \<and> length ys = length xs
           \<and> (\<forall>i < length xs. Q (xs ! i) (stl (stl s) !! (2 * i)) (stl (stl s) !! (2 * i + 1)) (ys ! i))"
    by (rule Cons.IH) (simp add: Cons.prems)
  then obtain ys where
    ys: "Array_map f xs (stl (stl s)) = Inr (ys, sdrop (2 * length xs) (stl (stl s)))"
      "length ys = length xs"
      "\<And>i. i < length xs \<Longrightarrow>
         Q (xs ! i) (stl (stl s) !! (2 * i)) (stl (stl s) !! (2 * i + 1)) (ys ! i)"
    by blast
  have res: "Array_map f (x # xs) s = Inr (y # ys, sdrop (2 * length (x # xs)) s)"
    using y(1) ys(1) by simp
  have nth: "Q ((x # xs) ! i) (s !! (2 * i)) (s !! (2 * i + 1)) ((y # ys) ! i)"
    if "i < length (x # xs)" for i
  proof (cases i)
    case 0
    then show ?thesis using y(2) by simp
  next
    case (Suc j)
    then have "j < length xs" using that by simp
    from ys(3) [OF this] show ?thesis using Suc by simp
  qed
  show ?case using res ys(2) nth by simp
qed

lemma zone_resolves:
  "loc \<in> set locations \<Longrightarrow> \<exists>limits. map_of noiseLimits (zone loc) = Some limits"
  by (auto simp: locations_def noiseLimits_def)

text \<open>The record the callback builds from a location, its limits and its two draws.\<close>

lemma predict_location:
  assumes "loc \<in> set locations"
  shows "\<exists>row limits. predict hour dayOfWeek noiseLag loc s = Inr (row, stl (stl s))
      \<and> map_of noiseLimits (zone loc) = Some limits
      \<and> location row = name loc \<and> latitude row = lat loc \<and> longitude row = lon loc
      \<and> zone_type row = zone loc
      \<and> predicted_noise row = toFixed 2 (predictedNoise loc hour dayOfWeek noiseLag (shd s))
      \<and> noise_limit row = (if isNight hour then night limits else day limits)
      \<and> is_violation row = (predictedNoise loc hour dayOfWeek noiseLag (shd s) > noise_limit row)
      \<and> confidence row = toFixed 2 (rawConfidence (shd (stl s)))"
proof -
  from zone_resolves [OF assms] obtain limits where "map_of noiseLimits (zone loc) = Some limits" ..
  then show ?thesis by (simp add: predict_def Math_random_def)
qed

lemma generateStaticPredictions_rows:
  "\<exists>rows. generateStaticPredictions hour dayOfWeek noiseLag s = Inr (rows, sdrop 18 s)
     \<and> length rows = 9
     \<and> (\<forall>i < 9. \<exists>limits. map_of noiseLimits (zone (locations ! i)) = Some limits
          \<and> location (rows ! i) = name (locations ! i)
          \<and> latitude (rows ! i) = lat (locations ! i)
          \<and> longitude (rows ! i) = lon (locations ! i)
          \<and> zone_type (rows ! i) = zone (locations ! i)
          \<and> predicted_noise (rows ! i)
              = toFixed 2 (predictedNoise (locations ! i) hour dayOfWeek noiseLag (s !! (2 * i)))
          \<and> noise_limit (rows ! i) = (if isNight hour then night limits else day limits)
          \<and> is_violation (rows ! i)
              = (predictedNoise (locations ! i) hour dayOfWeek noiseLag (s !! (2 * i))
                   > noise_limit (rows ! i))
          \<and> confidence (rows ! i) = toFixed 2 (rawConfidence (s !! (2 * i + 1))))"
proof -
  let ?Q = "\<lambda>loc r1 r2 row. \<exists>limits. map_of noiseLimits (zone loc) = Some limits
      \<and> location row = name loc \<and> latitude row = lat loc \<and> longitude row = lon loc
      \<and> zone_type row = zone loc
      \<and> predicted_noise row = toFixed 2 (predictedNoise loc hour dayOfWeek noiseLag r1)
      \<and> noise_limit row = (if isNight hour then night limits else day limits)
      \<and> is_violation row = (predictedNoise loc hour dayOfWeek noiseLag r1 > noise_limit row)
      \<and> confidence row = toFixed 2 (rawConfidence r2)"
  have step: "\<exists>row. predict hour dayOfWeek noiseLag loc t = Inr (row, stl (stl t))
      \<and> ?Q loc (shd t) (shd (stl t)) row" if "loc \<in> set locations" for loc t
    using predict_location [OF that, of hour dayOfWeek noiseLag t] by blast
  have len: "length locations = 9" by (simp add: locations_def)
  from Array_map_two_draws [of locations "predict hour dayOfWeek noiseLag" ?Q s, OF step]
  show ?thesis unfolding generateStaticPredictions_def len by simp
qed

lemma length_locations: "length locations = 9"
  by (simp add: locations_def)

lemma nth_locations: "i < 9 \<Longrightarrow> locations ! i \<in> set locations"
  by (rule nth_mem) (simp only: length_locations)

lemma baseNoise_Ints: "loc \<in> set locations \<Longrightarrow> baseNoise loc \<in> \<int>"
  by (auto simp: locations_def)

lemma baseNoise_bounds: "loc \<in> set locations \<Longrightarrow> 62 \<le> baseNoise loc \<and> baseNoise loc \<le> 76"
  by (auto simp: locations_def)

lemma timeFactor_bounds: "- 8 \<le> timeFactor hour \<and> timeFactor hour \<le> 6"
  by (simp add: timeFactor_def)

lemma dayFactor_bounds: "- (7 / 2) \<le> dayFactor dayOfWeek \<and> dayFactor dayOfWeek \<le> 0"
  by (simp add: dayFactor_def)

lemma limits_Ints:
  "map_of noiseLimits z = Some limits \<Longrightarrow> day limits * 10 ^ 2 \<in> \<int> \<and> night limits * 10 ^ 2 \<in> \<int>"
  by (auto simp: noiseLimits_def split: if_splits)

text \<open>
  The sums of a base noise, a time factor and a day factor are multiples of one half:
  binary64 adds them without rounding.
\<close>

lemma environmentalNoise_exact:
  assumes "loc \<in> set locations"
  shows "environmentalNoise loc hour dayOfWeek
           = baseNoise loc + timeFactor hour + dayFactor dayOfWeek"
proof -
  have b: "2 * baseNoise loc \<in> \<int>" using baseNoise_Ints [OF assms] by (intro Ints_mult) simp_all
  have t: "2 * timeFactor hour \<in> \<int>" by (simp add: timeFactor_def)
  have d: "2 * dayFactor dayOfWeek \<in> \<int>" by (simp add: dayFactor_def)
  note bb = baseNoise_bounds [OF assms] and tb = timeFactor_bounds [of hour]
    and db = dayFactor_bounds [of dayOfWeek]
  have "2 * (baseNoise loc + timeFactor hour) = 2 * baseNoise loc + 2 * timeFactor hour"
    by (simp add: algebra_simps)
  then have "2 * (baseNoise loc + timeFactor hour) \<in> \<int>" using b t by (simp only: Ints_add)
  moreover have "\<bar>baseNoise loc + timeFactor hour\<bar> \<le> 1000" using bb tb by linarith
  ultimately have one: "fl (baseNoise loc + timeFactor hour) = baseNoise loc + timeFactor hour"
    by (rule fl_half_grid)
  have "2 * (baseNoise loc + timeFactor hour + dayFactor dayOfWeek)
      = 2 * baseNoise loc + 2 * timeFactor hour + 2 * dayFactor dayOfWeek"
    by (simp add: algebra_simps)
  then have "2 * (baseNoise loc + timeFactor hour + dayFactor dayOfWeek) \<in> \<int>"
    using b t d by (simp only: Ints_add)
  moreover have "\<bar>baseNoise loc + timeFactor hour + dayFactor dayOfWeek\<bar> \<le> 1000"
    using bb tb db by linarith
  ultimately have two: "fl (baseNoise loc + timeFactor hour + dayFactor dayOfWeek)
      = baseNoise loc + timeFactor hour + dayFactor dayOfWeek"
    by (rule fl_half_grid)
  show ?thesis by (simp add: environmentalNoise_def add64_def one two)
qed

lemma environmentalNoise_spec:
  "loc \<in> set locations \<Longrightarrow>
     environmentalNoise loc hour dayOfWeek = spec_envNoise (baseNoise loc) hour dayOfWeek"
  by (simp add: environmentalNoise_exact spec_envNoise_def timeFactor_def dayFactor_def)

text \<open>
  The predicted noise computed in binary64 is within \<open>10^-12\<close> of the exact value of the
  formula, for a previous noise level between 0 and 100.
\<close>

lemma predictedNoise_error:
  assumes "loc \<in> set locations" and "0 \<le> noiseLag" and "noiseLag \<le> 100"
    and "0 \<le> r" and "r < 1"
  shows "\<bar>predictedNoise loc hour dayOfWeek noiseLag r
          - (3 / 5 * noiseLag
             + 2 / 5 * (baseNoise loc + timeFactor hour + dayFactor dayOfWeek)
             + (r * 3 - 3 / 2))\<bar> \<le> 1 / 10 ^ 12"
proof -
  define E where "E = baseNoise loc + timeFactor hour + dayFactor dayOfWeek"
  have env: "environmentalNoise loc hour dayOfWeek = E"
    unfolding E_def by (rule environmentalNoise_exact [OF assms(1)])
  have Eb: "101 / 2 \<le> E" "E \<le> 82"
    using baseNoise_bounds [OF assms(1)] timeFactor_bounds [of hour] dayFactor_bounds [of dayOfWeek]
    unfolding E_def by linarith+
  define p1 where "p1 = 5404319552844595 / 9007199254740992 * noiseLag"
  define p2 where "p2 = 3602879701896397 / 9007199254740992 * E"
  define x1 where "x1 = fl p1"
  define x2 where "x2 = fl p2"
  define x3 where "x3 = fl (x1 + x2)"
  define j1 where "j1 = fl (r * 3)"
  define j2 where "j2 = fl (j1 - 3 / 2)"
  define x4 where "x4 = fl (x3 + j2)"
  have p1b: "0 \<le> p1" "p1 \<le> 61" using assms(2,3) unfolding p1_def by linarith+
  have p2b: "20 \<le> p2" "p2 \<le> 33" using Eb unfolding p2_def by linarith+
  have x1: "p1 - 1 / 70368744177664 \<le> x1" "x1 \<le> p1 + 1 / 70368744177664"
    unfolding x1_def using p1b by (intro fl_small; linarith)+
  have x2: "p2 - 1 / 70368744177664 \<le> x2" "x2 \<le> p2 + 1 / 70368744177664"
    unfolding x2_def using p2b by (intro fl_small; linarith)+
  have x3: "x1 + x2 - 1 / 70368744177664 \<le> x3" "x3 \<le> x1 + x2 + 1 / 70368744177664"
    unfolding x3_def using p1b p2b x1 x2 by (intro fl_small; linarith)+
  have j1: "r * 3 - 1 / 70368744177664 \<le> j1" "j1 \<le> r * 3 + 1 / 70368744177664"
    unfolding j1_def using assms(4,5) by (intro fl_small; linarith)+
  have j2: "j1 - 3 / 2 - 1 / 70368744177664 \<le> j2" "j2 \<le> j1 - 3 / 2 + 1 / 70368744177664"
    unfolding j2_def using assms(4,5) j1 by (intro fl_small; linarith)+
  have x4: "x3 + j2 - 1 / 70368744177664 \<le> x4" "x4 \<le> x3 + j2 + 1 / 70368744177664"
    unfolding x4_def using p1b p2b x1 x2 x3 assms(4,5) j1 j2 by (intro fl_small; linarith)+
  have pn: "predictedNoise loc hour dayOfWeek noiseLag r = x4"
    by (simp add: predictedNoise_def add64_def mul64_def sub64_def lit64_3_5 lit64_2_5 env
        x4_def x3_def x2_def x1_def j2_def j1_def p1_def p2_def)
  have c1: "3 / 5 * noiseLag - 1 / 10 ^ 13 \<le> p1" "p1 \<le> 3 / 5 * noiseLag"
    using assms(2,3) unfolding p1_def by simp_all
  have c2: "2 / 5 * E \<le> p2" "p2 \<le> 2 / 5 * E + 1 / 10 ^ 13"
    using Eb unfolding p2_def by simp_all
  have lo: "3 / 5 * noiseLag + 2 / 5 * E + (r * 3 - 3 / 2) - 1 / 10 ^ 12 \<le> x4"
    using c1 c2 x1 x2 x3 j1 j2 x4 by simp
  have hi: "x4 \<le> 3 / 5 * noiseLag + 2 / 5 * E + (r * 3 - 3 / 2) + 1 / 10 ^ 12"
    using c1 c2 x1 x2 x3 j1 j2 x4 by simp
  have "\<bar>x4 - (3 / 5 * noiseLag + 2 / 5 * E + (r * 3 - 3 / 2))\<bar> \<le> 1 / 10 ^ 12"
    using lo hi by linarith
  then show ?thesis by (simp only: pn E_def)
qed

lemma valid_rng_sconst: "0 \<le> r \<Longrightarrow> r < 1 \<Longrightarrow> valid_rng (sconst r)"
  by (simp add: valid_rng_def)

lemma snth_sconst: "sconst x !! n = x"
  by (induction n) simp_all

text \<open>For a preset and a listed location, the ends of the jitter interval have two decimals.\<close>

lemma centre_grid:
  assumes "loc \<in> set locations" and "noiseLag = 55 \<or> noiseLag = 65 \<or> noiseLag = 75"
  shows "(3 / 5 * noiseLag + 2 / 5 * (baseNoise loc + timeFactor hour + dayFactor dayOfWeek)
            - 3 / 2) * 10 ^ 2 \<in> \<int>"
    and "(3 / 5 * noiseLag + 2 / 5 * (baseNoise loc + timeFactor hour + dayFactor dayOfWeek)
            + 3 / 2) * 10 ^ 2 \<in> \<int>"
proof -
  have b: "40 * baseNoise loc \<in> \<int>" using baseNoise_Ints [OF assms(1)] by (intro Ints_mult) simp_all
  have t: "40 * timeFactor hour \<in> \<int>" by (simp add: timeFactor_def)
  have d: "40 * dayFactor dayOfWeek \<in> \<int>" by (simp add: dayFactor_def)
  have l: "60 * noiseLag \<in> \<int>" using assms(2) by auto
  have e1: "(3 / 5 * noiseLag + 2 / 5 * (baseNoise loc + timeFactor hour + dayFactor dayOfWeek)
        - 3 / 2) * 10 ^ 2
      = 60 * noiseLag + (40 * baseNoise loc + 40 * timeFactor hour + 40 * dayFactor dayOfWeek) - 150"
    by (simp add: algebra_simps)
  have e2: "(3 / 5 * noiseLag + 2 / 5 * (baseNoise loc + timeFactor hour + dayFactor dayOfWeek)
        + 3 / 2) * 10 ^ 2
      = 60 * noiseLag + (40 * baseNoise loc + 40 * timeFactor hour + 40 * dayFactor dayOfWeek) + 150"
    by (simp add: algebra_simps)
  show "(3 / 5 * noiseLag + 2 / 5 * (baseNoise loc + timeFactor hour + dayFactor dayOfWeek)
      - 3 / 2) * 10 ^ 2 \<in> \<int>"
    unfolding e1 using b t d l by (intro Ints_add Ints_diff) simp_all
  show "(3 / 5 * noiseLag + 2 / 5 * (baseNoise loc + timeFactor hour + dayFactor dayOfWeek)
      + 3 / 2) * 10 ^ 2 \<in> \<int>"
    unfolding e2 using b t d l by (intro Ints_add Ints_diff) simp_all
qed

text \<open>
  The rounding error of the binary64 operations is far below half a hundredth, so the
  field stays within the interval the exact formula gives.
\<close>

lemma predicted_noise_field_bounds:
  assumes "loc \<in> set locations" and "noiseLag = 55 \<or> noiseLag = 65 \<or> noiseLag = 75"
    and "0 \<le> r" and "r < 1"
  shows "3 / 5 * noiseLag + 2 / 5 * (baseNoise loc + timeFactor hour + dayFactor dayOfWeek) - 3 / 2
           \<le> toFixed 2 (predictedNoise loc hour dayOfWeek noiseLag r)"
    and "toFixed 2 (predictedNoise loc hour dayOfWeek noiseLag r)
           \<le> 3 / 5 * noiseLag + 2 / 5 * (baseNoise loc + timeFactor hour + dayFactor dayOfWeek) + 3 / 2"
proof -
  define c where
    "c = 3 / 5 * noiseLag + 2 / 5 * (baseNoise loc + timeFactor hour + dayFactor dayOfWeek)"
  define x where "x = predictedNoise loc hour dayOfWeek noiseLag r"
  have lag: "0 \<le> noiseLag" "noiseLag \<le> 100" using assms(2) by auto
  have "\<bar>x - (c + (r * 3 - 3 / 2))\<bar> \<le> 1 / 10 ^ 12"
    unfolding x_def c_def by (rule predictedNoise_error [OF assms(1) lag assms(3,4)])
  then have err: "\<bar>x - (c + (r * 3 - 3 / 2))\<bar> \<le> 1 / 1000000000000" by simp
  have half: "(1::rat) / (2 * 10 ^ 2) = 1 / 200" by simp
  have g1: "(c - 3 / 2) * 10 ^ 2 \<in> \<int>" unfolding c_def by (rule centre_grid(1) [OF assms(1,2)])
  have g2: "(c + 3 / 2) * 10 ^ 2 \<in> \<int>" unfolding c_def by (rule centre_grid(2) [OF assms(1,2)])
  have "c - 3 / 2 - 1 / 200 < x" using err assms(3) by linarith
  then have "c - 3 / 2 - 1 / (2 * 10 ^ 2) < x" by (simp only: half)
  then have lo: "c - 3 / 2 \<le> toFixed 2 x" by (rule toFixed_lower_slack [OF g1])
  have "x < c + 3 / 2 + 1 / 200" using err assms(4) by linarith
  then have "x < c + 3 / 2 + 1 / (2 * 10 ^ 2)" by (simp only: half)
  then have hi: "toFixed 2 x \<le> c + 3 / 2" by (rule toFixed_upper_slack [OF g2])
  show "3 / 5 * noiseLag + 2 / 5 * (baseNoise loc + timeFactor hour + dayFactor dayOfWeek) - 3 / 2
           \<le> toFixed 2 (predictedNoise loc hour dayOfWeek noiseLag r)"
    using lo by (simp only: c_def x_def)
  show "toFixed 2 (predictedNoise loc hour dayOfWeek noiseLag r)
           \<le> 3 / 5 * noiseLag + 2 / 5 * (baseNoise loc + timeFactor hour + dayFactor dayOfWeek) + 3 / 2"
    using hi by (simp only: c_def x_def)
qed

section \<open>Claims about the synthetic predictor\<close>

text \<open>
  C1. For a valid hour, day of the week and preset, and every draw of the random source,
  \<open>generateStaticPredictions\<close> returns 9 records, one per location identifier of the fixed
  list, and the \<open>predicted_noise\<close> of each lies within 1.5 of
  \<open>0.6 * noiseLag + 0.4 * envNoise\<close>, the environmental noise being the base noise of the
  location plus the time factor and the day factor of the specification. The bounds are
  the exact numbers; the field is computed in binary64 and rounded to 2 decimals.
\<close>

theorem predicted_noise_within_bounds:
  assumes "valid_input hour dayOfWeek noiseLag" and "valid_rng s"
  shows "\<exists>rows s'. generateStaticPredictions hour dayOfWeek noiseLag s = Inr (rows, s')
     \<and> length rows = 9
     \<and> map location rows = map name locations \<and> distinct (map name locations)
     \<and> (\<forall>i < 9.
          3 / 5 * noiseLag + 2 / 5 * spec_envNoise (baseNoise (locations ! i)) hour dayOfWeek - 3 / 2
            \<le> predicted_noise (rows ! i)
          \<and> predicted_noise (rows ! i)
            \<le> 3 / 5 * noiseLag + 2 / 5 * spec_envNoise (baseNoise (locations ! i)) hour dayOfWeek + 3 / 2)"
proof -
  from generateStaticPredictions_rows [of hour dayOfWeek noiseLag s] obtain rows where
    res: "generateStaticPredictions hour dayOfWeek noiseLag s = Inr (rows, sdrop 18 s)"
    and len: "length rows = 9"
    and loc: "\<And>i. i < 9 \<Longrightarrow> location (rows ! i) = name (locations ! i)"
    and pn: "\<And>i. i < 9 \<Longrightarrow> predicted_noise (rows ! i)
        = toFixed 2 (predictedNoise (locations ! i) hour dayOfWeek noiseLag (s !! (2 * i)))"
    by blast
  have names: "map location rows = map name locations"
    by (rule nth_equalityI) (simp_all add: len length_locations loc)
  have dist: "distinct (map name locations)" by (simp add: locations_def)
  have lag: "noiseLag = 55 \<or> noiseLag = 65 \<or> noiseLag = 75"
    using assms(1) by (simp add: valid_input_def)
  have bounds:
    "3 / 5 * noiseLag + 2 / 5 * spec_envNoise (baseNoise (locations ! i)) hour dayOfWeek - 3 / 2
       \<le> predicted_noise (rows ! i)
     \<and> predicted_noise (rows ! i)
       \<le> 3 / 5 * noiseLag + 2 / 5 * spec_envNoise (baseNoise (locations ! i)) hour dayOfWeek + 3 / 2"
    if i: "i < 9" for i
  proof -
    let ?loc = "locations ! i" and ?r = "s !! (2 * i)"
    have mem: "?loc \<in> set locations" by (rule nth_locations [OF i])
    have r: "0 \<le> ?r" "?r < 1" using valid_rng_snth [OF assms(2), of "2 * i"] by simp_all
    have sp: "spec_envNoise (baseNoise ?loc) hour dayOfWeek
        = baseNoise ?loc + timeFactor hour + dayFactor dayOfWeek"
      using environmentalNoise_spec [OF mem] environmentalNoise_exact [OF mem] by metis
    show ?thesis unfolding pn [OF i] sp
      using predicted_noise_field_bounds [OF mem lag r] by (intro conjI)
  qed
  show ?thesis using res len names dist bounds by blast
qed

theorem predicted_noise_within_bounds_witness:
  "valid_input 17 1 65 \<and> valid_rng (sconst (1 / 2))
   \<and> (\<exists>rows s'. generateStaticPredictions 17 1 65 (sconst (1 / 2)) = Inr (rows, s')
     \<and> length rows = 9
     \<and> map location rows = map name locations \<and> distinct (map name locations)
     \<and> (\<forall>i < 9.
          3 / 5 * 65 + 2 / 5 * spec_envNoise (baseNoise (locations ! i)) 17 1 - 3 / 2
            \<le> predicted_noise (rows ! i)
          \<and> predicted_noise (rows ! i)
            \<le> 3 / 5 * 65 + 2 / 5 * spec_envNoise (baseNoise (locations ! i)) 17 1 + 3 / 2))"
proof -
  have h1: "valid_input 17 1 65" by (simp add: valid_input_def)
  have h2: "valid_rng (sconst (1 / 2))" by (simp add: valid_rng_sconst)
  from predicted_noise_within_bounds [OF h1 h2] h1 h2 show ?thesis by (intro conjI)
qed

text \<open>
  C2 (amended). \<open>is_violation\<close> is true exactly when the predicted noise before
  \<open>toFixed\<close>, the binary64 value the code computes, is strictly greater than
  \<open>noise_limit\<close>, the night limit of the location's zone when \<open>hour \<ge> 22\<close> or \<open>hour < 6\<close>
  and the day limit otherwise; an unrounded value equal to the limit is compliant. The
  \<open>predicted_noise\<close> field is that value rounded to 2 decimals: a field above the limit
  implies the flag, and a flagged record has a field at or above the limit.
\<close>

theorem violation_flag_compares_unrounded:
  assumes "valid_input hour dayOfWeek noiseLag" and "valid_rng s"
  shows "\<exists>rows s'. generateStaticPredictions hour dayOfWeek noiseLag s = Inr (rows, s')
     \<and> length rows = 9
     \<and> (\<forall>i < 9. \<exists>limits. map_of noiseLimits (zone (locations ! i)) = Some limits
          \<and> noise_limit (rows ! i) = (if hour \<ge> 22 \<or> hour < 6 then night limits else day limits)
          \<and> predicted_noise (rows ! i)
              = toFixed 2 (predictedNoise (locations ! i) hour dayOfWeek noiseLag (s !! (2 * i)))
          \<and> is_violation (rows ! i)
              = (predictedNoise (locations ! i) hour dayOfWeek noiseLag (s !! (2 * i))
                   > noise_limit (rows ! i))
          \<and> (predictedNoise (locations ! i) hour dayOfWeek noiseLag (s !! (2 * i))
                 = noise_limit (rows ! i) \<longrightarrow> \<not> is_violation (rows ! i))
          \<and> (predicted_noise (rows ! i) > noise_limit (rows ! i) \<longrightarrow> is_violation (rows ! i))
          \<and> (is_violation (rows ! i) \<longrightarrow> predicted_noise (rows ! i) \<ge> noise_limit (rows ! i)))"
proof -
  from generateStaticPredictions_rows [of hour dayOfWeek noiseLag s] obtain rows where
    res: "generateStaticPredictions hour dayOfWeek noiseLag s = Inr (rows, sdrop 18 s)"
    and len: "length rows = 9"
    and row: "\<And>i. i < 9 \<Longrightarrow> \<exists>limits. map_of noiseLimits (zone (locations ! i)) = Some limits
          \<and> predicted_noise (rows ! i)
              = toFixed 2 (predictedNoise (locations ! i) hour dayOfWeek noiseLag (s !! (2 * i)))
          \<and> noise_limit (rows ! i) = (if isNight hour then night limits else day limits)
          \<and> is_violation (rows ! i)
              = (predictedNoise (locations ! i) hour dayOfWeek noiseLag (s !! (2 * i))
                   > noise_limit (rows ! i))"
    by blast
  have each: "\<exists>limits. map_of noiseLimits (zone (locations ! i)) = Some limits
          \<and> noise_limit (rows ! i) = (if hour \<ge> 22 \<or> hour < 6 then night limits else day limits)
          \<and> predicted_noise (rows ! i)
              = toFixed 2 (predictedNoise (locations ! i) hour dayOfWeek noiseLag (s !! (2 * i)))
          \<and> is_violation (rows ! i)
              = (predictedNoise (locations ! i) hour dayOfWeek noiseLag (s !! (2 * i))
                   > noise_limit (rows ! i))
          \<and> (predictedNoise (locations ! i) hour dayOfWeek noiseLag (s !! (2 * i))
                 = noise_limit (rows ! i) \<longrightarrow> \<not> is_violation (rows ! i))
          \<and> (predicted_noise (rows ! i) > noise_limit (rows ! i) \<longrightarrow> is_violation (rows ! i))
          \<and> (is_violation (rows ! i) \<longrightarrow> predicted_noise (rows ! i) \<ge> noise_limit (rows ! i))"
    if i: "i < 9" for i
  proof -
    let ?x = "predictedNoise (locations ! i) hour dayOfWeek noiseLag (s !! (2 * i))"
    from row [OF i] obtain limits where
      lim: "map_of noiseLimits (zone (locations ! i)) = Some limits"
      and pn: "predicted_noise (rows ! i) = toFixed 2 ?x"
      and nl: "noise_limit (rows ! i) = (if isNight hour then night limits else day limits)"
      and iv: "is_violation (rows ! i) = (?x > noise_limit (rows ! i))"
      by blast
    have grid: "noise_limit (rows ! i) * 10 ^ 2 \<in> \<int>"
      using limits_Ints [OF lim] by (simp add: nl)
    have up: "toFixed 2 ?x \<le> noise_limit (rows ! i)" if "?x \<le> noise_limit (rows ! i)"
      by (rule toFixed_upper [OF that grid])
    have lo: "noise_limit (rows ! i) \<le> toFixed 2 ?x" if "noise_limit (rows ! i) \<le> ?x"
      by (rule toFixed_lower [OF that grid])
    have a: "predicted_noise (rows ! i) > noise_limit (rows ! i) \<longrightarrow> is_violation (rows ! i)"
      using up by (auto simp: pn iv not_less [symmetric])
    have b: "is_violation (rows ! i) \<longrightarrow> predicted_noise (rows ! i) \<ge> noise_limit (rows ! i)"
      using lo by (auto simp: pn iv)
    have c: "?x = noise_limit (rows ! i) \<longrightarrow> \<not> is_violation (rows ! i)"
      by (simp add: iv)
    have nl': "noise_limit (rows ! i) = (if hour \<ge> 22 \<or> hour < 6 then night limits else day limits)"
      by (simp add: nl isNight_def)
    show ?thesis using lim nl' pn iv a b c by blast
  qed
  show ?thesis using res len each by blast
qed

theorem violation_flag_compares_unrounded_witness:
  "valid_input 8 0 55 \<and> valid_rng (sconst (581 / 1024))
   \<and> (\<exists>rows s'. generateStaticPredictions 8 0 55 (sconst (581 / 1024)) = Inr (rows, s')
     \<and> length rows = 9
     \<and> (\<forall>i < 9. \<exists>limits. map_of noiseLimits (zone (locations ! i)) = Some limits
          \<and> noise_limit (rows ! i) = (if (8::rat) \<ge> 22 \<or> (8::rat) < 6 then night limits else day limits)
          \<and> predicted_noise (rows ! i)
              = toFixed 2 (predictedNoise (locations ! i) 8 0 55 ((sconst (581 / 1024) :: rng) !! (2 * i)))
          \<and> is_violation (rows ! i)
              = (predictedNoise (locations ! i) 8 0 55 ((sconst (581 / 1024) :: rng) !! (2 * i))
                   > noise_limit (rows ! i))
          \<and> (predictedNoise (locations ! i) 8 0 55 ((sconst (581 / 1024) :: rng) !! (2 * i))
                 = noise_limit (rows ! i) \<longrightarrow> \<not> is_violation (rows ! i))
          \<and> (predicted_noise (rows ! i) > noise_limit (rows ! i) \<longrightarrow> is_violation (rows ! i))
          \<and> (is_violation (rows ! i) \<longrightarrow> predicted_noise (rows ! i) \<ge> noise_limit (rows ! i))))"
proof -
  have h1: "valid_input 8 0 55" by (simp add: valid_input_def)
  have h2: "valid_rng (sconst (581 / 1024))" by (simp add: valid_rng_sconst)
  from violation_flag_compares_unrounded [OF h1 h2] h1 h2 show ?thesis by (intro conjI)
qed

text \<open>
  The claim as stated compares the rounded field. At 8 o'clock on a Monday with the quiet
  preset and a jitter draw of 581/1024, the unrounded value for \<open>isbt\<close> is a little above
  65.002: the flag is set, and the record shows 65 against a limit of 65.
\<close>

theorem violation_flag_rounded_field_counterexample:
  "valid_input 8 0 55 \<and> valid_rng (sconst (581 / 1024))
   \<and> location (rows_of (generateStaticPredictions 8 0 55 (sconst (581 / 1024))) ! 3) = ''isbt''
   \<and> is_violation (rows_of (generateStaticPredictions 8 0 55 (sconst (581 / 1024))) ! 3)
   \<and> predicted_noise (rows_of (generateStaticPredictions 8 0 55 (sconst (581 / 1024))) ! 3) = 65
   \<and> noise_limit (rows_of (generateStaticPredictions 8 0 55 (sconst (581 / 1024))) ! 3) = 65
   \<and> \<not> (predicted_noise (rows_of (generateStaticPredictions 8 0 55 (sconst (581 / 1024))) ! 3)
          > noise_limit (rows_of (generateStaticPredictions 8 0 55 (sconst (581 / 1024))) ! 3))"
proof -
  let ?s = "sconst (581 / 1024) :: rng"
  have loc: "locations ! 3 = \<lparr>name = ''isbt'', lat = 28667 / 1000, lon = 77231 / 1000,
      zone = ''Commercial'', baseNoise = 75\<rparr>"
    by (simp add: locations_def)
  have env: "environmentalNoise (locations ! 3) 8 0 = 159 / 2"
    by (simp add: environmentalNoise_exact nth_locations) (simp add: loc timeFactor_def dayFactor_def)
  have m1: "mul64 (lit64 (3 / 5)) 55 = 33"
    unfolding mul64_def lit64_3_5 lit64_2_5 lit64_1_5
    by (subst fl_eval [of "5"]) (simp_all add: rne_def Let_def floor_numeral_divide)
  have m2: "mul64 (lit64 (2 / 5)) (159 / 2) = 8950904259398861 / 281474976710656"
    unfolding mul64_def lit64_3_5 lit64_2_5 lit64_1_5
    by (subst fl_eval [of "4"]) (simp_all add: rne_def Let_def floor_numeral_divide)
  have a1: "add64 33 (8950904259398861 / 281474976710656) = 4559894622712627 / 70368744177664"
    unfolding add64_def
    by (subst fl_eval [of "6"]) (simp_all add: rne_def Let_def floor_numeral_divide)
  have j1: "mul64 (581 / 1024) 3 = 1743 / 1024"
    unfolding mul64_def
    by (subst fl_eval [of "0"]) (simp_all add: rne_def Let_def floor_numeral_divide)
  have j2: "sub64 (1743 / 1024) (3 / 2) = 207 / 1024"
    unfolding sub64_def
    by (subst fl_eval [of "- 3"]) (simp_all add: rne_def Let_def floor_numeral_divide)
  have a2: "add64 (4559894622712627 / 70368744177664) (207 / 1024) = 4574119554396979 / 70368744177664"
    unfolding add64_def
    by (subst fl_eval [of "6"]) (simp_all add: rne_def Let_def floor_numeral_divide)
  have pn: "predictedNoise (locations ! 3) 8 0 55 (581 / 1024) = 4574119554396979 / 70368744177664"
    by (simp only: predictedNoise_def env m1 m2 a1 j1 j2 a2)
  have field: "toFixed 2 (4574119554396979 / 70368744177664) = 65"
    by (simp add: toFixed_def floor_numeral_divide)
  from generateStaticPredictions_rows [of 8 0 55 ?s] obtain rows where
    res: "generateStaticPredictions 8 0 55 ?s = Inr (rows, sdrop 18 ?s)"
    and row: "\<And>i. i < 9 \<Longrightarrow> \<exists>limits. map_of noiseLimits (zone (locations ! i)) = Some limits
          \<and> location (rows ! i) = name (locations ! i)
          \<and> predicted_noise (rows ! i)
              = toFixed 2 (predictedNoise (locations ! i) 8 0 55 (?s !! (2 * i)))
          \<and> noise_limit (rows ! i) = (if isNight 8 then night limits else day limits)
          \<and> is_violation (rows ! i)
              = (predictedNoise (locations ! i) 8 0 55 (?s !! (2 * i)) > noise_limit (rows ! i))"
    by blast
  have ro: "rows_of (generateStaticPredictions 8 0 55 ?s) = rows" by (simp add: res rows_of_def)
  from row [of 3] obtain limits where
    lim: "map_of noiseLimits (zone (locations ! 3)) = Some limits"
    and r3: "location (rows ! 3) = name (locations ! 3)"
      "predicted_noise (rows ! 3) = toFixed 2 (predictedNoise (locations ! 3) 8 0 55 (?s !! (2 * 3)))"
      "noise_limit (rows ! 3) = (if isNight 8 then night limits else day limits)"
      "is_violation (rows ! 3)
         = (predictedNoise (locations ! 3) 8 0 55 (?s !! (2 * 3)) > noise_limit (rows ! 3))"
    by auto
  have draw: "?s !! (2 * 3) = 581 / 1024" by (rule snth_sconst)
  have "limits = \<lparr>day = 65, night = 55\<rparr>" using lim by (simp add: loc noiseLimits_def)
  then have nl: "noise_limit (rows ! 3) = 65" using r3(3) by (simp add: isNight_def)
  have pf: "predicted_noise (rows ! 3) = 65" by (simp only: r3(2) draw pn field)
  have iv: "is_violation (rows ! 3)" using r3(4) unfolding draw pn nl by simp
  have nm: "location (rows ! 3) = ''isbt''" by (simp add: r3(1) loc)
  have h1: "valid_input 8 0 55" by (simp add: valid_input_def)
  have h2: "valid_rng ?s" by (simp add: valid_rng_sconst)
  show ?thesis unfolding ro using h1 h2 nm iv pf nl by simp
qed

lemma rawConfidence_bounds:
  assumes "0 \<le> r" and "r < 1"
  shows "3 / 4 \<le> rawConfidence r" and "rawConfidence r \<le> lit64 (19 / 20)"
proof -
  let ?c = "3602879701896397 / 18014398509481984 :: rat"
  have c: "fl ?c = ?c"
    by (subst fl_eval [of "- 3"]) (simp_all add: rne_def Let_def floor_numeral_divide)
  have q: "fl (3 / 4) = 3 / 4"
    by (subst fl_eval [of "- 1"]) (simp_all add: rne_def Let_def floor_numeral_divide)
  have top: "fl (3 / 4 + ?c) = 4278419646001971 / 4503599627370496"
    by (subst fl_eval [of "- 1"]) (simp_all add: rne_def Let_def floor_numeral_divide)
  have lit: "lit64 (19 / 20) = 4278419646001971 / 4503599627370496"
    unfolding lit64_def
    by (subst fl_eval [of "- 1"]) (simp_all add: rne_def Let_def floor_numeral_divide)
  have "0 \<le> r * ?c" using assms(1) by simp
  then have "fl 0 \<le> fl (r * ?c)" by (rule fl_mono)
  then have p0: "0 \<le> fl (r * ?c)" by simp
  have "r * ?c \<le> ?c" using assms(2) by simp
  then have "fl (r * ?c) \<le> fl ?c" by (rule fl_mono)
  then have p1: "fl (r * ?c) \<le> ?c" by (simp only: c)
  have "3 / 4 \<le> 3 / 4 + fl (r * ?c)" using p0 by simp
  then have "fl (3 / 4) \<le> fl (3 / 4 + fl (r * ?c))" by (rule fl_mono)
  then show "3 / 4 \<le> rawConfidence r"
    by (simp only: q rawConfidence_def add64_def mul64_def lit64_1_5)
  have "3 / 4 + fl (r * ?c) \<le> 3 / 4 + ?c" using p1 by simp
  then have "fl (3 / 4 + fl (r * ?c)) \<le> fl (3 / 4 + ?c)" by (rule fl_mono)
  then show "rawConfidence r \<le> lit64 (19 / 20)"
    by (simp only: top lit rawConfidence_def add64_def mul64_def lit64_1_5)
qed

lemma lit64_19_20_below: "lit64 (19 / 20) < 19 / 20 + 1 / (2 * 10 ^ 2)"
proof -
  have "lit64 (19 / 20) = 4278419646001971 / 4503599627370496"
    unfolding lit64_def
    by (subst fl_eval [of "- 1"]) (simp_all add: rne_def Let_def floor_numeral_divide)
  then show ?thesis by simp
qed

text \<open>
  C3 (amended). For every call and every draw of the random source, the \<open>confidence\<close> of
  each of the 9 records is \<open>0.75 + r * 0.2\<close>, computed in binary64 from the second draw
  \<open>r\<close> of the record and rounded to 2 decimals: the value before rounding lies between
  0.75 and the binary64 value of 0.95, both included, and the field lies in the closed
  interval \<open>[0.75, 0.95]\<close>.
\<close>

theorem confidence_closed_interval:
  assumes "valid_rng s"
  shows "\<exists>rows s'. generateStaticPredictions hour dayOfWeek noiseLag s = Inr (rows, s')
     \<and> length rows = 9
     \<and> (\<forall>i < 9. confidence (rows ! i) = toFixed 2 (rawConfidence (s !! (2 * i + 1)))
          \<and> 3 / 4 \<le> rawConfidence (s !! (2 * i + 1))
          \<and> rawConfidence (s !! (2 * i + 1)) \<le> lit64 (19 / 20)
          \<and> 3 / 4 \<le> confidence (rows ! i) \<and> confidence (rows ! i) \<le> 19 / 20)"
proof -
  from generateStaticPredictions_rows [of hour dayOfWeek noiseLag s] obtain rows where
    res: "generateStaticPredictions hour dayOfWeek noiseLag s = Inr (rows, sdrop 18 s)"
    and len: "length rows = 9"
    and cf: "\<And>i. i < 9 \<Longrightarrow> confidence (rows ! i) = toFixed 2 (rawConfidence (s !! (2 * i + 1)))"
    by blast
  have each: "confidence (rows ! i) = toFixed 2 (rawConfidence (s !! (2 * i + 1)))
          \<and> 3 / 4 \<le> rawConfidence (s !! (2 * i + 1))
          \<and> rawConfidence (s !! (2 * i + 1)) \<le> lit64 (19 / 20)
          \<and> 3 / 4 \<le> confidence (rows ! i) \<and> confidence (rows ! i) \<le> 19 / 20"
    if i: "i < 9" for i
  proof -
    let ?r = "s !! (2 * i + 1)"
    have r: "0 \<le> ?r" "?r < 1" using valid_rng_snth [OF assms, of "2 * i + 1"] by simp_all
    note raw = rawConfidence_bounds [OF r]
    have "(3 / 4 :: rat) * 10 ^ 2 \<in> \<int>" by simp
    then have lo: "3 / 4 \<le> toFixed 2 (rawConfidence ?r)" using raw(1) by (intro toFixed_lower)
    have g: "(19 / 20 :: rat) * 10 ^ 2 \<in> \<int>" by simp
    have "rawConfidence ?r < 19 / 20 + 1 / (2 * 10 ^ 2)"
      using raw(2) lit64_19_20_below by (rule le_less_trans)
    then have hi: "toFixed 2 (rawConfidence ?r) \<le> 19 / 20" by (rule toFixed_upper_slack [OF g])
    show ?thesis using raw lo hi by (simp add: cf [OF i])
  qed
  show ?thesis using res len each by blast
qed

theorem confidence_closed_interval_witness:
  "valid_rng (sconst (127 / 128))
   \<and> (\<exists>rows s'. generateStaticPredictions 12 0 65 (sconst (127 / 128)) = Inr (rows, s')
     \<and> length rows = 9
     \<and> (\<forall>i < 9. confidence (rows ! i)
            = toFixed 2 (rawConfidence ((sconst (127 / 128) :: rng) !! (2 * i + 1)))
          \<and> 3 / 4 \<le> rawConfidence ((sconst (127 / 128) :: rng) !! (2 * i + 1))
          \<and> rawConfidence ((sconst (127 / 128) :: rng) !! (2 * i + 1)) \<le> lit64 (19 / 20)
          \<and> 3 / 4 \<le> confidence (rows ! i) \<and> confidence (rows ! i) \<le> 19 / 20))"
proof -
  have h: "valid_rng (sconst (127 / 128))" by (simp add: valid_rng_sconst)
  from confidence_closed_interval [OF h] h show ?thesis by (intro conjI)
qed

text \<open>
  The half-open interval of the claim as stated fails: a draw of 127/128 gives a value
  near 0.9484 before rounding and a \<open>confidence\<close> of 0.95.
\<close>

theorem confidence_reaches_upper_end_counterexample:
  "valid_input 12 0 65 \<and> valid_rng (sconst (127 / 128))
   \<and> confidence (rows_of (generateStaticPredictions 12 0 65 (sconst (127 / 128))) ! 0) = 19 / 20
   \<and> \<not> (confidence (rows_of (generateStaticPredictions 12 0 65 (sconst (127 / 128))) ! 0) < 19 / 20)"
proof -
  let ?s = "sconst (127 / 128) :: rng"
  have c1: "mul64 (127 / 128) (lit64 (1 / 5)) = 7149464408450663 / 36028797018963968"
    unfolding mul64_def lit64_3_5 lit64_2_5 lit64_1_5
    by (subst fl_eval [of "- 3"]) (simp_all add: rne_def Let_def floor_numeral_divide)
  have c2: "add64 (3 / 4) (7149464408450663 / 36028797018963968) = 4271382771584205 / 4503599627370496"
    unfolding add64_def
    by (subst fl_eval [of "- 1"]) (simp_all add: rne_def Let_def floor_numeral_divide)
  have raw: "rawConfidence (127 / 128) = 4271382771584205 / 4503599627370496"
    by (simp only: rawConfidence_def c1 c2)
  have field: "toFixed 2 (4271382771584205 / 4503599627370496) = 19 / 20"
    by (simp add: toFixed_def floor_numeral_divide)
  from generateStaticPredictions_rows [of 12 0 65 ?s] obtain rows where
    res: "generateStaticPredictions 12 0 65 ?s = Inr (rows, sdrop 18 ?s)"
    and row: "\<And>i. i < 9 \<Longrightarrow> confidence (rows ! i) = toFixed 2 (rawConfidence (?s !! (2 * i + 1)))"
    by blast
  have ro: "rows_of (generateStaticPredictions 12 0 65 ?s) = rows" by (simp add: res rows_of_def)
  have draw: "?s !! (2 * 0 + 1) = 127 / 128" by (rule snth_sconst)
  have "confidence (rows ! 0) = toFixed 2 (rawConfidence (?s !! (2 * 0 + 1)))"
    by (rule row) simp
  then have cf: "confidence (rows ! 0) = 19 / 20" by (simp only: draw raw field)
  have h1: "valid_input 12 0 65" by (simp add: valid_input_def)
  have h2: "valid_rng ?s" by (simp add: valid_rng_sconst)
  show ?thesis unfolding ro using h1 h2 cf by simp
qed

lemma ito_index:
  assumes "n < 9" and "name (locations ! n) = ''ito''"
  shows "n = 1"
proof -
  from assms(1) have "n \<in> {0, 1, 2, 3, 4, 5, 6, 7, 8}" by auto
  with assms(2) show ?thesis by (auto simp: locations_def)
qed

text \<open>
  C4. At 17 o'clock on a Tuesday with the normal preset (65), the record of location
  \<open>ito\<close> (base noise 76, zone Commercial) has, for every jitter draw: environmental noise
  82, \<open>predicted_noise\<close> in [70.3, 73.3], \<open>noise_limit\<close> 65 (the day limit of Commercial,
  hour 17 not being night), and \<open>is_violation\<close> true.
\<close>

theorem ito_evening_scenario:
  assumes "valid_rng s"
  shows "\<exists>rows s'. generateStaticPredictions 17 1 65 s = Inr (rows, s')
     \<and> (\<exists>row \<in> set rows. location row = ''ito'')
     \<and> (\<forall>row \<in> set rows. location row = ''ito'' \<longrightarrow>
           zone_type row = ''Commercial''
           \<and> 703 / 10 \<le> predicted_noise row \<and> predicted_noise row \<le> 733 / 10
           \<and> noise_limit row = 65 \<and> is_violation row)
     \<and> (\<forall>loc \<in> set locations. name loc = ''ito'' \<longrightarrow>
           baseNoise loc = 76 \<and> zone loc = ''Commercial'' \<and> environmentalNoise loc 17 1 = 82)
     \<and> \<not> isNight 17
     \<and> map_of noiseLimits ''Commercial'' = Some \<lparr>day = 65, night = 55\<rparr>"
proof -
  from generateStaticPredictions_rows [of 17 1 65 s] obtain rows where
    res: "generateStaticPredictions 17 1 65 s = Inr (rows, sdrop 18 s)"
    and len: "length rows = 9"
    and row: "\<And>i. i < 9 \<Longrightarrow> \<exists>limits. map_of noiseLimits (zone (locations ! i)) = Some limits
          \<and> location (rows ! i) = name (locations ! i)
          \<and> zone_type (rows ! i) = zone (locations ! i)
          \<and> predicted_noise (rows ! i)
              = toFixed 2 (predictedNoise (locations ! i) 17 1 65 (s !! (2 * i)))
          \<and> noise_limit (rows ! i) = (if isNight 17 then night limits else day limits)
          \<and> is_violation (rows ! i)
              = (predictedNoise (locations ! i) 17 1 65 (s !! (2 * i)) > noise_limit (rows ! i))"
    by blast
  have ito0: "locations ! Suc 0 = \<lparr>name = ''ito'', lat = 28631 / 1000, lon = 77248 / 1000,
      zone = ''Commercial'', baseNoise = 76\<rparr>"
    by (simp add: locations_def)
  have day17: "\<not> isNight 17" by (simp add: isNight_def)
  have comm: "map_of noiseLimits ''Commercial'' = Some \<lparr>day = 65, night = 55\<rparr>"
    by (simp add: noiseLimits_def)
  have mem: "locations ! Suc 0 \<in> set locations" by (rule nth_locations) simp
  have env: "environmentalNoise (locations ! Suc 0) 17 1 = 82"
    unfolding environmentalNoise_exact [OF mem]
    by (simp add: ito0 timeFactor_def dayFactor_def)
  let ?r = "s !! 2"
  let ?x = "predictedNoise (locations ! Suc 0) 17 1 65 ?r"
  have r: "0 \<le> ?r" "?r < 1" using valid_rng_snth [OF assms, of 2] by simp_all
  have "\<bar>?x - (3 / 5 * 65 + 2 / 5 * (baseNoise (locations ! Suc 0) + timeFactor 17 + dayFactor 1)
      + (?r * 3 - 3 / 2))\<bar> \<le> 1 / 10 ^ 12"
    by (rule predictedNoise_error [OF mem _ _ r]) simp_all
  then have "\<bar>?x - (703 / 10 + ?r * 3)\<bar> \<le> 1 / 1000000000000"
    by (simp add: ito0 timeFactor_def dayFactor_def)
  then have xlo: "65 < ?x" using r by linarith
  have "3 / 5 * 65 + 2 / 5 * (baseNoise (locations ! Suc 0) + timeFactor 17 + dayFactor 1) - 3 / 2
      \<le> toFixed 2 ?x"
    by (rule predicted_noise_field_bounds(1) [OF mem _ r]) simp
  then have lo: "703 / 10 \<le> toFixed 2 ?x" by (simp add: ito0 timeFactor_def dayFactor_def)
  have "toFixed 2 ?x
      \<le> 3 / 5 * 65 + 2 / 5 * (baseNoise (locations ! Suc 0) + timeFactor 17 + dayFactor 1) + 3 / 2"
    by (rule predicted_noise_field_bounds(2) [OF mem _ r]) simp
  then have hi: "toFixed 2 ?x \<le> 733 / 10" by (simp add: ito0 timeFactor_def dayFactor_def)
  from row [of "Suc 0"] obtain limits where
    "map_of noiseLimits (zone (locations ! Suc 0)) = Some limits"
    and r1: "location (rows ! Suc 0) = name (locations ! Suc 0)"
      "zone_type (rows ! Suc 0) = zone (locations ! Suc 0)"
      "predicted_noise (rows ! Suc 0) = toFixed 2 ?x"
      "noise_limit (rows ! Suc 0) = (if isNight 17 then night limits else day limits)"
      "is_violation (rows ! Suc 0) = (?x > noise_limit (rows ! Suc 0))"
    by auto
  then have "limits = \<lparr>day = 65, night = 55\<rparr>" using comm by (simp add: ito0)
  then have nl: "noise_limit (rows ! Suc 0) = 65" using r1(4) day17 by simp
  have iv: "is_violation (rows ! Suc 0)" using r1(5) nl xlo by simp
  have row1: "zone_type (rows ! Suc 0) = ''Commercial''
      \<and> 703 / 10 \<le> predicted_noise (rows ! Suc 0) \<and> predicted_noise (rows ! Suc 0) \<le> 733 / 10
      \<and> noise_limit (rows ! Suc 0) = 65 \<and> is_violation (rows ! Suc 0)"
    using r1(2,3) lo hi nl iv by (simp add: ito0)
  have ex: "\<exists>row \<in> set rows. location row = ''ito''"
  proof
    show "rows ! Suc 0 \<in> set rows" by (rule nth_mem) (simp add: len)
    show "location (rows ! Suc 0) = ''ito''" using r1(1) by (simp add: ito0)
  qed
  have all: "\<forall>row \<in> set rows. location row = ''ito'' \<longrightarrow>
           zone_type row = ''Commercial''
           \<and> 703 / 10 \<le> predicted_noise row \<and> predicted_noise row \<le> 733 / 10
           \<and> noise_limit row = 65 \<and> is_violation row"
  proof (intro ballI impI)
    fix row assume "row \<in> set rows" and l: "location row = ''ito''"
    then obtain i where i: "i < 9" "row = rows ! i" by (auto simp: in_set_conv_nth len)
    from row [OF i(1)] have "location (rows ! i) = name (locations ! i)" by blast
    then have "i = 1" using ito_index [OF i(1)] l i(2) by simp
    then show "zone_type row = ''Commercial''
           \<and> 703 / 10 \<le> predicted_noise row \<and> predicted_noise row \<le> 733 / 10
           \<and> noise_limit row = 65 \<and> is_violation row"
      using row1 i(2) by simp
  qed
  have locs: "\<forall>loc \<in> set locations. name loc = ''ito'' \<longrightarrow>
           baseNoise loc = 76 \<and> zone loc = ''Commercial'' \<and> environmentalNoise loc 17 1 = 82"
  proof (intro ballI impI)
    fix loc assume "loc \<in> set locations" and n: "name loc = ''ito''"
    then obtain i where i: "i < 9" "loc = locations ! i"
      by (auto simp: in_set_conv_nth length_locations)
    then have "i = 1" using ito_index n by simp
    then show "baseNoise loc = 76 \<and> zone loc = ''Commercial'' \<and> environmentalNoise loc 17 1 = 82"
      using env i(2) by (simp add: ito0)
  qed
  show ?thesis using res ex all locs day17 comm by blast
qed

theorem ito_evening_scenario_witness:
  "valid_rng (sconst (1 / 2))
   \<and> (\<exists>rows s'. generateStaticPredictions 17 1 65 (sconst (1 / 2)) = Inr (rows, s')
     \<and> (\<exists>row \<in> set rows. location row = ''ito'')
     \<and> (\<forall>row \<in> set rows. location row = ''ito'' \<longrightarrow>
           zone_type row = ''Commercial''
           \<and> 703 / 10 \<le> predicted_noise row \<and> predicted_noise row \<le> 733 / 10
           \<and> noise_limit row = 65 \<and> is_violation row)
     \<and> (\<forall>loc \<in> set locations. name loc = ''ito'' \<longrightarrow>
           baseNoise loc = 76 \<and> zone loc = ''Commercial'' \<and> environmentalNoise loc 17 1 = 82)
     \<and> \<not> isNight 17
     \<and> map_of noiseLimits ''Commercial'' = Some \<lparr>day = 65, night = 55\<rparr>)"
proof -
  have h: "valid_rng (sconst (1 / 2))" by (simp add: valid_rng_sconst)
  from ito_evening_scenario [OF h] h show ?thesis by (intro conjI)
qed

text \<open>
  C9. For a valid input and every draw, the records come in the order of the compiled-in
  location list: their \<open>location\<close> fields are nsit, ito, punjabi, isbt, mandir_marg,
  civil_lines, CPCBHQ, Dilshad, centralschool; each record carries the latitude, longitude
  and zone of its location; and every \<open>noise_limit\<close> is one of the eight entries of the
  table of the four zones.
\<close>

theorem rows_follow_location_list:
  assumes "valid_input hour dayOfWeek noiseLag" and "valid_rng s"
  shows "\<exists>rows s'. generateStaticPredictions hour dayOfWeek noiseLag s = Inr (rows, s')
     \<and> map location rows
         = [''nsit'', ''ito'', ''punjabi'', ''isbt'', ''mandir_marg'', ''civil_lines'', ''CPCBHQ'',
            ''Dilshad'', ''centralschool'']
     \<and> map (\<lambda>row. (location row, latitude row, longitude row, zone_type row)) rows
         = [(''nsit'', 2861 / 100, 7704 / 100, ''Silence Zone''),
            (''ito'', 28631 / 1000, 77248 / 1000, ''Commercial''),
            (''punjabi'', 2866 / 100, 7712 / 100, ''Residential''),
            (''isbt'', 28667 / 1000, 77231 / 1000, ''Commercial''),
            (''mandir_marg'', 28628 / 1000, 77203 / 1000, ''Commercial''),
            (''civil_lines'', 28678 / 1000, 77222 / 1000, ''Residential''),
            (''CPCBHQ'', 2859 / 100, 7725 / 100, ''Commercial''),
            (''Dilshad'', 2868 / 100, 7731 / 100, ''Residential''),
            (''centralschool'', 2853 / 100, 7725 / 100, ''Silence Zone'')]
     \<and> (\<forall>row \<in> set rows.
           noise_limit row
             \<in> set (concat (map (\<lambda>(z, limits). [day limits, night limits]) noiseLimits)))
     \<and> concat (map (\<lambda>(z, limits). [day limits, night limits]) noiseLimits)
         = [75, 70, 65, 55, 55, 45, 50, 40]"
proof -
  from generateStaticPredictions_rows [of hour dayOfWeek noiseLag s] obtain rows where
    res: "generateStaticPredictions hour dayOfWeek noiseLag s = Inr (rows, sdrop 18 s)"
    and len: "length rows = 9"
    and row: "\<And>i. i < 9 \<Longrightarrow> \<exists>limits. map_of noiseLimits (zone (locations ! i)) = Some limits
          \<and> location (rows ! i) = name (locations ! i)
          \<and> latitude (rows ! i) = lat (locations ! i)
          \<and> longitude (rows ! i) = lon (locations ! i)
          \<and> zone_type (rows ! i) = zone (locations ! i)
          \<and> noise_limit (rows ! i) = (if isNight hour then night limits else day limits)"
    by blast
  have fields: "map (\<lambda>row. (location row, latitude row, longitude row, zone_type row)) rows
      = map (\<lambda>loc. (name loc, lat loc, lon loc, zone loc)) locations"
  proof (rule nth_equalityI)
    show "length (map (\<lambda>row. (location row, latitude row, longitude row, zone_type row)) rows)
        = length (map (\<lambda>loc. (name loc, lat loc, lon loc, zone loc)) locations)"
      by (simp add: len length_locations)
  next
    fix i assume "i < length (map (\<lambda>row. (location row, latitude row, longitude row, zone_type row)) rows)"
    then have i: "i < 9" by (simp add: len)
    from row [OF i] show "map (\<lambda>row. (location row, latitude row, longitude row, zone_type row)) rows ! i
        = map (\<lambda>loc. (name loc, lat loc, lon loc, zone loc)) locations ! i"
      using i by (auto simp: len length_locations)
  qed
  have quads: "map (\<lambda>row. (location row, latitude row, longitude row, zone_type row)) rows
      = [(''nsit'', 2861 / 100, 7704 / 100, ''Silence Zone''),
         (''ito'', 28631 / 1000, 77248 / 1000, ''Commercial''),
         (''punjabi'', 2866 / 100, 7712 / 100, ''Residential''),
         (''isbt'', 28667 / 1000, 77231 / 1000, ''Commercial''),
         (''mandir_marg'', 28628 / 1000, 77203 / 1000, ''Commercial''),
         (''civil_lines'', 28678 / 1000, 77222 / 1000, ''Residential''),
         (''CPCBHQ'', 2859 / 100, 7725 / 100, ''Commercial''),
         (''Dilshad'', 2868 / 100, 7731 / 100, ''Residential''),
         (''centralschool'', 2853 / 100, 7725 / 100, ''Silence Zone'')]"
    unfolding fields by (simp add: locations_def)
  have "map location rows
      = map fst (map (\<lambda>row. (location row, latitude row, longitude row, zone_type row)) rows)"
    by simp
  then have names: "map location rows
      = [''nsit'', ''ito'', ''punjabi'', ''isbt'', ''mandir_marg'', ''civil_lines'', ''CPCBHQ'',
         ''Dilshad'', ''centralschool'']"
    unfolding quads by simp
  have lims: "\<forall>row \<in> set rows.
      noise_limit row \<in> set (concat (map (\<lambda>(z, limits). [day limits, night limits]) noiseLimits))"
  proof
    fix r assume "r \<in> set rows"
    then obtain i where i: "i < 9" "r = rows ! i" by (auto simp: in_set_conv_nth len)
    from row [OF i(1)] obtain limits where
      m: "map_of noiseLimits (zone (locations ! i)) = Some limits"
      and nl: "noise_limit (rows ! i) = (if isNight hour then night limits else day limits)"
      by blast
    from m have "(zone (locations ! i), limits) \<in> set noiseLimits" by (rule map_of_SomeD)
    then have "day limits \<in> set (concat (map (\<lambda>(z, limits). [day limits, night limits]) noiseLimits))"
      and "night limits \<in> set (concat (map (\<lambda>(z, limits). [day limits, night limits]) noiseLimits))"
      by force+
    then show "noise_limit r \<in> set (concat (map (\<lambda>(z, limits). [day limits, night limits]) noiseLimits))"
      by (simp add: i(2) nl)
  qed
  have table: "concat (map (\<lambda>(z, limits). [day limits, night limits]) noiseLimits)
      = [75, 70, 65, 55, 55, 45, 50, 40]"
    by (simp add: noiseLimits_def)
  show ?thesis by (intro exI conjI) (rule res names quads lims table)+
qed

theorem rows_follow_location_list_witness:
  "valid_input 23 6 75 \<and> valid_rng (sconst (1 / 4))
   \<and> (\<exists>rows s'. generateStaticPredictions 23 6 75 (sconst (1 / 4)) = Inr (rows, s')
     \<and> map location rows
         = [''nsit'', ''ito'', ''punjabi'', ''isbt'', ''mandir_marg'', ''civil_lines'', ''CPCBHQ'',
            ''Dilshad'', ''centralschool'']
     \<and> map (\<lambda>row. (location row, latitude row, longitude row, zone_type row)) rows
         = [(''nsit'', 2861 / 100, 7704 / 100, ''Silence Zone''),
            (''ito'', 28631 / 1000, 77248 / 1000, ''Commercial''),
            (''punjabi'', 2866 / 100, 7712 / 100, ''Residential''),
            (''isbt'', 28667 / 1000, 77231 / 1000, ''Commercial''),
            (''mandir_marg'', 28628 / 1000, 77203 / 1000, ''Commercial''),
            (''civil_lines'', 28678 / 1000, 77222 / 1000, ''Residential''),
            (''CPCBHQ'', 2859 / 100, 7725 / 100, ''Commercial''),
            (''Dilshad'', 2868 / 100, 7731 / 100, ''Residential''),
            (''centralschool'', 2853 / 100, 7725 / 100, ''Silence Zone'')]
     \<and> (\<forall>row \<in> set rows.
           noise_limit row
             \<in> set (concat (map (\<lambda>(z, limits). [day limits, night limits]) noiseLimits)))
     \<and> concat (map (\<lambda>(z, limits). [day limits, night limits]) noiseLimits)
         = [75, 70, 65, 55, 55, 45, 50, 40])"
proof -
  have h1: "valid_input 23 6 75" by (simp add: valid_input_def)
  have h2: "valid_rng (sconst (1 / 4))" by (simp add: valid_rng_sconst)
  from rows_follow_location_list [OF h1 h2] h1 h2 show ?thesis by (intro conjI)
qed

lemma predictedNoise_mono:
  assumes "a \<le> b"
  shows "predictedNoise loc hour dayOfWeek a r \<le> predictedNoise loc hour dayOfWeek b r"
proof -
  have "5404319552844595 / 9007199254740992 * a \<le> 5404319552844595 / 9007199254740992 * b"
    using assms by simp
  then have "mul64 (lit64 (3 / 5)) a \<le> mul64 (lit64 (3 / 5)) b"
    unfolding mul64_def lit64_3_5 by (rule fl_mono)
  then have "mul64 (lit64 (3 / 5)) a + mul64 (lit64 (2 / 5)) (environmentalNoise loc hour dayOfWeek)
      \<le> mul64 (lit64 (3 / 5)) b + mul64 (lit64 (2 / 5)) (environmentalNoise loc hour dayOfWeek)"
    by simp
  then have "add64 (mul64 (lit64 (3 / 5)) a) (mul64 (lit64 (2 / 5)) (environmentalNoise loc hour dayOfWeek))
      \<le> add64 (mul64 (lit64 (3 / 5)) b) (mul64 (lit64 (2 / 5)) (environmentalNoise loc hour dayOfWeek))"
    unfolding add64_def by (rule fl_mono)
  then have "add64 (mul64 (lit64 (3 / 5)) a) (mul64 (lit64 (2 / 5)) (environmentalNoise loc hour dayOfWeek))
        + sub64 (mul64 r 3) (3 / 2)
      \<le> add64 (mul64 (lit64 (3 / 5)) b) (mul64 (lit64 (2 / 5)) (environmentalNoise loc hour dayOfWeek))
        + sub64 (mul64 r 3) (3 / 2)"
    by simp
  then show ?thesis unfolding predictedNoise_def add64_def [of _ "sub64 (mul64 r 3) (3 / 2)"]
    by (rule fl_mono)
qed

text \<open>Raising the previous noise level by \<open>d\<close> raises the binary64 value by \<open>0.6 d\<close> within \<open>2 * 10^-12\<close>.\<close>

lemma predictedNoise_step:
  assumes "loc \<in> set locations" and "0 \<le> a" and "a \<le> 100" and "0 \<le> b" and "b \<le> 100"
    and "0 \<le> r" and "r < 1"
  shows "\<bar>predictedNoise loc hour dayOfWeek b r - predictedNoise loc hour dayOfWeek a r
          - 3 / 5 * (b - a)\<bar> \<le> 2 / 10 ^ 12"
proof -
  define E where "E = baseNoise loc + timeFactor hour + dayFactor dayOfWeek"
  define xa where "xa = predictedNoise loc hour dayOfWeek a r"
  define xb where "xb = predictedNoise loc hour dayOfWeek b r"
  have "\<bar>xa - (3 / 5 * a + 2 / 5 * E + (r * 3 - 3 / 2))\<bar> \<le> 1 / 10 ^ 12"
    unfolding xa_def E_def by (rule predictedNoise_error [OF assms(1,2,3,6,7)])
  then have ea: "\<bar>xa - (3 / 5 * a + 2 / 5 * E + (r * 3 - 3 / 2))\<bar> \<le> 1 / 1000000000000" by simp
  have "\<bar>xb - (3 / 5 * b + 2 / 5 * E + (r * 3 - 3 / 2))\<bar> \<le> 1 / 10 ^ 12"
    unfolding xb_def E_def by (rule predictedNoise_error [OF assms(1,4,5,6,7)])
  then have eb: "\<bar>xb - (3 / 5 * b + 2 / 5 * E + (r * 3 - 3 / 2))\<bar> \<le> 1 / 1000000000000" by simp
  have main: "\<bar>xb - xa - (3 / 5 * b - 3 / 5 * a)\<bar> \<le> 2 / 1000000000000"
    using ea eb by linarith
  have e1: "3 / 5 * (b - a) = 3 / 5 * b - 3 / 5 * a" by (simp add: right_diff_distrib)
  have e2: "(2::rat) / 10 ^ 12 = 2 / 1000000000000" by simp
  show ?thesis using main unfolding xa_def xb_def e1 e2 .
qed

lemma Ints_abs_less_2:
  assumes "z \<in> \<int>" and "\<bar>z\<bar> < 2"
  shows "\<bar>z\<bar> \<le> (1::rat)"
proof -
  from assms(1) obtain k :: int where k: "z = of_int k" by (auto elim: Ints_cases)
  then have "(of_int \<bar>k\<bar> :: rat) < of_int 2" using assms(2) by simp
  then have "\<bar>k\<bar> < 2" by (simp only: of_int_less_iff)
  then have "\<bar>k\<bar> \<le> 1" by simp
  then have "(of_int \<bar>k\<bar> :: rat) \<le> of_int 1" by (simp only: of_int_le_iff)
  then show ?thesis by (simp add: k)
qed

text \<open>Two values about 6 apart have roundings to 2 decimals that are 5.99, 6 or 6.01 apart.\<close>

lemma toFixed_step_6:
  assumes "\<bar>y - x - 6\<bar> \<le> 2 / 10 ^ 12"
  shows "\<bar>toFixed 2 y - toFixed 2 x - 6\<bar> \<le> 1 / 100"
proof -
  define fx where "fx = toFixed 2 x"
  define fy where "fy = toFixed 2 y"
  have ex: "\<bar>fx - x\<bar> \<le> 1 / 200" using toFixed_error [of 2 x] by (simp add: fx_def)
  have ey: "\<bar>fy - y\<bar> \<le> 1 / 200" using toFixed_error [of 2 y] by (simp add: fy_def)
  have d: "\<bar>y - x - 6\<bar> \<le> 2 / 1000000000000" using assms by simp
  define z where "z = fy - fx - 6"
  define w where "w = z * 100"
  have "\<bar>z\<bar> < 2 / 100" unfolding z_def using ex ey d by linarith
  moreover have aw: "\<bar>w\<bar> = \<bar>z\<bar> * 100" by (simp add: w_def abs_mult)
  ultimately have lt: "\<bar>w\<bar> < 2" by linarith
  have "w = fy * 10 ^ 2 - fx * 10 ^ 2 - 600" by (simp add: w_def z_def algebra_simps)
  moreover have "fx * 10 ^ 2 \<in> \<int>" "fy * 10 ^ 2 \<in> \<int>"
    unfolding fx_def fy_def by (rule toFixed_decimals)+
  ultimately have "w \<in> \<int>" by (simp only: Ints_diff Ints_numeral)
  then have "\<bar>w\<bar> \<le> 1" using lt by (rule Ints_abs_less_2)
  then have "\<bar>z\<bar> \<le> 1 / 100" using aw by linarith
  then show ?thesis unfolding z_def fx_def fy_def .
qed

text \<open>
  C10 (amended). With the hour, the day, the location and the jitter draw fixed, the
  predicted noise before rounding, computed in binary64, never decreases when the
  previous noise level is raised, and for levels between 0 and 100 raising it by \<open>d > 0\<close>
  raises the value by \<open>0.6 * d\<close> up to a rounding error of at most \<open>2 * 10^-12\<close>, not
  always exactly. Under the same draws, each location's value for the preset 75 is
  strictly above that for 65, which is strictly above that for 55, by 6 up to that error,
  and the \<open>predicted_noise\<close> fields of the records differ by 5.99, 6 or 6.01.
\<close>

theorem predicted_noise_increases_with_prior:
  assumes "valid_rng s" and "0 \<le> noiseLag" and "0 < d" and "noiseLag + d \<le> 100"
  shows "\<exists>rowsQ rowsN rowsL sQ sN sL.
       generateStaticPredictions hour dayOfWeek 55 s = Inr (rowsQ, sQ)
     \<and> generateStaticPredictions hour dayOfWeek 65 s = Inr (rowsN, sN)
     \<and> generateStaticPredictions hour dayOfWeek 75 s = Inr (rowsL, sL)
     \<and> (\<forall>i < 9.
           predictedNoise (locations ! i) hour dayOfWeek noiseLag (s !! (2 * i))
             \<le> predictedNoise (locations ! i) hour dayOfWeek (noiseLag + d) (s !! (2 * i))
         \<and> \<bar>predictedNoise (locations ! i) hour dayOfWeek (noiseLag + d) (s !! (2 * i))
              - predictedNoise (locations ! i) hour dayOfWeek noiseLag (s !! (2 * i))
              - 3 / 5 * d\<bar> \<le> 2 / 10 ^ 12
         \<and> predictedNoise (locations ! i) hour dayOfWeek 55 (s !! (2 * i))
             < predictedNoise (locations ! i) hour dayOfWeek 65 (s !! (2 * i))
         \<and> predictedNoise (locations ! i) hour dayOfWeek 65 (s !! (2 * i))
             < predictedNoise (locations ! i) hour dayOfWeek 75 (s !! (2 * i))
         \<and> \<bar>predictedNoise (locations ! i) hour dayOfWeek 65 (s !! (2 * i))
              - predictedNoise (locations ! i) hour dayOfWeek 55 (s !! (2 * i)) - 6\<bar> \<le> 2 / 10 ^ 12
         \<and> \<bar>predictedNoise (locations ! i) hour dayOfWeek 75 (s !! (2 * i))
              - predictedNoise (locations ! i) hour dayOfWeek 65 (s !! (2 * i)) - 6\<bar> \<le> 2 / 10 ^ 12
         \<and> \<bar>predicted_noise (rowsN ! i) - predicted_noise (rowsQ ! i) - 6\<bar> \<le> 1 / 100
         \<and> \<bar>predicted_noise (rowsL ! i) - predicted_noise (rowsN ! i) - 6\<bar> \<le> 1 / 100)"
proof -
  from generateStaticPredictions_rows [of hour dayOfWeek 55 s] obtain rowsQ where
    q: "generateStaticPredictions hour dayOfWeek 55 s = Inr (rowsQ, sdrop 18 s)"
      "\<And>i. i < 9 \<Longrightarrow> predicted_noise (rowsQ ! i)
         = toFixed 2 (predictedNoise (locations ! i) hour dayOfWeek 55 (s !! (2 * i)))"
    by blast
  from generateStaticPredictions_rows [of hour dayOfWeek 65 s] obtain rowsN where
    n: "generateStaticPredictions hour dayOfWeek 65 s = Inr (rowsN, sdrop 18 s)"
      "\<And>i. i < 9 \<Longrightarrow> predicted_noise (rowsN ! i)
         = toFixed 2 (predictedNoise (locations ! i) hour dayOfWeek 65 (s !! (2 * i)))"
    by blast
  from generateStaticPredictions_rows [of hour dayOfWeek 75 s] obtain rowsL where
    l: "generateStaticPredictions hour dayOfWeek 75 s = Inr (rowsL, sdrop 18 s)"
      "\<And>i. i < 9 \<Longrightarrow> predicted_noise (rowsL ! i)
         = toFixed 2 (predictedNoise (locations ! i) hour dayOfWeek 75 (s !! (2 * i)))"
    by blast
  have each:
    "predictedNoise (locations ! i) hour dayOfWeek noiseLag (s !! (2 * i))
       \<le> predictedNoise (locations ! i) hour dayOfWeek (noiseLag + d) (s !! (2 * i))
     \<and> \<bar>predictedNoise (locations ! i) hour dayOfWeek (noiseLag + d) (s !! (2 * i))
          - predictedNoise (locations ! i) hour dayOfWeek noiseLag (s !! (2 * i))
          - 3 / 5 * d\<bar> \<le> 2 / 10 ^ 12
     \<and> predictedNoise (locations ! i) hour dayOfWeek 55 (s !! (2 * i))
         < predictedNoise (locations ! i) hour dayOfWeek 65 (s !! (2 * i))
     \<and> predictedNoise (locations ! i) hour dayOfWeek 65 (s !! (2 * i))
         < predictedNoise (locations ! i) hour dayOfWeek 75 (s !! (2 * i))
     \<and> \<bar>predictedNoise (locations ! i) hour dayOfWeek 65 (s !! (2 * i))
          - predictedNoise (locations ! i) hour dayOfWeek 55 (s !! (2 * i)) - 6\<bar> \<le> 2 / 10 ^ 12
     \<and> \<bar>predictedNoise (locations ! i) hour dayOfWeek 75 (s !! (2 * i))
          - predictedNoise (locations ! i) hour dayOfWeek 65 (s !! (2 * i)) - 6\<bar> \<le> 2 / 10 ^ 12
     \<and> \<bar>predicted_noise (rowsN ! i) - predicted_noise (rowsQ ! i) - 6\<bar> \<le> 1 / 100
     \<and> \<bar>predicted_noise (rowsL ! i) - predicted_noise (rowsN ! i) - 6\<bar> \<le> 1 / 100"
    if i: "i < 9" for i
  proof -
    let ?p = "\<lambda>lag. predictedNoise (locations ! i) hour dayOfWeek lag (s !! (2 * i))"
    have mem: "locations ! i \<in> set locations" by (rule nth_locations [OF i])
    have r: "0 \<le> s !! (2 * i)" "s !! (2 * i) < 1"
      using valid_rng_snth [OF assms(1), of "2 * i"] by simp_all
    have mono: "?p noiseLag \<le> ?p (noiseLag + d)"
      using assms(3) by (intro predictedNoise_mono) simp
    have "\<bar>?p (noiseLag + d) - ?p noiseLag - 3 / 5 * (noiseLag + d - noiseLag)\<bar> \<le> 2 / 10 ^ 12"
      using assms(2,3,4) by (intro predictedNoise_step [OF mem _ _ _ _ r]) simp_all
    then have lin: "\<bar>?p (noiseLag + d) - ?p noiseLag - 3 / 5 * d\<bar> \<le> 2 / 10 ^ 12" by simp
    have "\<bar>?p 65 - ?p 55 - 3 / 5 * (65 - 55)\<bar> \<le> 2 / 10 ^ 12"
      by (intro predictedNoise_step [OF mem _ _ _ _ r]) simp_all
    then have nq: "\<bar>?p 65 - ?p 55 - 6\<bar> \<le> 2 / 10 ^ 12" by simp
    have "\<bar>?p 75 - ?p 65 - 3 / 5 * (75 - 65)\<bar> \<le> 2 / 10 ^ 12"
      by (intro predictedNoise_step [OF mem _ _ _ _ r]) simp_all
    then have ln: "\<bar>?p 75 - ?p 65 - 6\<bar> \<le> 2 / 10 ^ 12" by simp
    have nq': "\<bar>?p 65 - ?p 55 - 6\<bar> \<le> 2 / 1000000000000" using nq by simp
    have ln': "\<bar>?p 75 - ?p 65 - 6\<bar> \<le> 2 / 1000000000000" using ln by simp
    have s1: "?p 55 < ?p 65" using nq' by linarith
    have s2: "?p 65 < ?p 75" using ln' by linarith
    have f1: "\<bar>predicted_noise (rowsN ! i) - predicted_noise (rowsQ ! i) - 6\<bar> \<le> 1 / 100"
      unfolding n(2) [OF i] q(2) [OF i] by (rule toFixed_step_6 [OF nq])
    have f2: "\<bar>predicted_noise (rowsL ! i) - predicted_noise (rowsN ! i) - 6\<bar> \<le> 1 / 100"
      unfolding l(2) [OF i] n(2) [OF i] by (rule toFixed_step_6 [OF ln])
    show ?thesis using mono lin s1 s2 nq ln f1 f2 by (intro conjI)
  qed
  show ?thesis using q(1) n(1) l(1) each by blast
qed

theorem predicted_noise_increases_with_prior_witness:
  "valid_rng (sconst (1 / 8)) \<and> (0::rat) \<le> 55 \<and> (0::rat) < 10 \<and> (55::rat) + 10 \<le> 100
   \<and> (\<exists>rowsQ rowsN rowsL sQ sN sL.
       generateStaticPredictions 9 2 55 (sconst (1 / 8)) = Inr (rowsQ, sQ)
     \<and> generateStaticPredictions 9 2 65 (sconst (1 / 8)) = Inr (rowsN, sN)
     \<and> generateStaticPredictions 9 2 75 (sconst (1 / 8)) = Inr (rowsL, sL)
     \<and> (\<forall>i < 9.
           predictedNoise (locations ! i) 9 2 55 ((sconst (1 / 8) :: rng) !! (2 * i))
             \<le> predictedNoise (locations ! i) 9 2 (55 + 10) ((sconst (1 / 8) :: rng) !! (2 * i))
         \<and> \<bar>predictedNoise (locations ! i) 9 2 (55 + 10) ((sconst (1 / 8) :: rng) !! (2 * i))
              - predictedNoise (locations ! i) 9 2 55 ((sconst (1 / 8) :: rng) !! (2 * i))
              - 3 / 5 * 10\<bar> \<le> 2 / 10 ^ 12
         \<and> predictedNoise (locations ! i) 9 2 55 ((sconst (1 / 8) :: rng) !! (2 * i))
             < predictedNoise (locations ! i) 9 2 65 ((sconst (1 / 8) :: rng) !! (2 * i))
         \<and> predictedNoise (locations ! i) 9 2 65 ((sconst (1 / 8) :: rng) !! (2 * i))
             < predictedNoise (locations ! i) 9 2 75 ((sconst (1 / 8) :: rng) !! (2 * i))
         \<and> \<bar>predictedNoise (locations ! i) 9 2 65 ((sconst (1 / 8) :: rng) !! (2 * i))
              - predictedNoise (locations ! i) 9 2 55 ((sconst (1 / 8) :: rng) !! (2 * i)) - 6\<bar>
             \<le> 2 / 10 ^ 12
         \<and> \<bar>predictedNoise (locations ! i) 9 2 75 ((sconst (1 / 8) :: rng) !! (2 * i))
              - predictedNoise (locations ! i) 9 2 65 ((sconst (1 / 8) :: rng) !! (2 * i)) - 6\<bar>
             \<le> 2 / 10 ^ 12
         \<and> \<bar>predicted_noise (rowsN ! i) - predicted_noise (rowsQ ! i) - 6\<bar> \<le> 1 / 100
         \<and> \<bar>predicted_noise (rowsL ! i) - predicted_noise (rowsN ! i) - 6\<bar> \<le> 1 / 100))"
proof -
  have h1: "valid_rng (sconst (1 / 8))" by (simp add: valid_rng_sconst)
  have h2: "(0::rat) \<le> 55" and h3: "(0::rat) < 10" and h4: "(55::rat) + 10 \<le> 100" by simp_all
  from predicted_noise_increases_with_prior [OF h1 h2 h3 h4, of 9 2] h1 h2 h3 h4
  show ?thesis by (intro conjI)
qed

text \<open>
  The claim as stated has the difference exact. At 9 o'clock on a Wednesday with a jitter
  draw of 1/8, the values for \<open>punjabi\<close> before rounding are just above 62.475 for the
  preset 55 and just below 68.475 for 65: they do not differ by 6, and the records show
  62.48 and 68.47.
\<close>

theorem predicted_noise_difference_counterexample:
  "valid_input 9 2 55 \<and> valid_input 9 2 65 \<and> valid_rng (sconst (1 / 8))
   \<and> location (rows_of (generateStaticPredictions 9 2 55 (sconst (1 / 8))) ! 2) = ''punjabi''
   \<and> location (rows_of (generateStaticPredictions 9 2 65 (sconst (1 / 8))) ! 2) = ''punjabi''
   \<and> predictedNoise (locations ! 2) 9 2 55 (1 / 8) = 8792574584999117 / 140737488355328
   \<and> predictedNoise (locations ! 2) 9 2 65 (1 / 8) = 2409249878782771 / 35184372088832
   \<and> predictedNoise (locations ! 2) 9 2 65 (1 / 8)
        \<noteq> predictedNoise (locations ! 2) 9 2 55 (1 / 8) + 3 / 5 * 10
   \<and> predicted_noise (rows_of (generateStaticPredictions 9 2 55 (sconst (1 / 8))) ! 2) = 6248 / 100
   \<and> predicted_noise (rows_of (generateStaticPredictions 9 2 65 (sconst (1 / 8))) ! 2) = 6847 / 100
   \<and> predicted_noise (rows_of (generateStaticPredictions 9 2 65 (sconst (1 / 8))) ! 2)
        \<noteq> predicted_noise (rows_of (generateStaticPredictions 9 2 55 (sconst (1 / 8))) ! 2) + 6"
proof -
  let ?s = "sconst (1 / 8) :: rng"
  have loc: "locations ! 2 = \<lparr>name = ''punjabi'', lat = 2866 / 100, lon = 7712 / 100,
      zone = ''Residential'', baseNoise = 72\<rparr>"
    by (simp add: locations_def)
  have env: "environmentalNoise (locations ! 2) 9 2 = 153 / 2"
    by (simp add: environmentalNoise_exact nth_locations) (simp add: loc timeFactor_def dayFactor_def)
  have qm1: "mul64 (lit64 (3 / 5)) 55 = 33"
    unfolding mul64_def lit64_3_5 lit64_2_5 lit64_1_5
    by (subst fl_eval [of "5"]) (simp_all add: rne_def Let_def floor_numeral_divide)
  have qm2: "mul64 (lit64 (2 / 5)) (153 / 2) = 4306567143673037 / 140737488355328"
    unfolding mul64_def lit64_3_5 lit64_2_5 lit64_1_5
    by (subst fl_eval [of "4"]) (simp_all add: rne_def Let_def floor_numeral_divide)
  have qa1: "add64 33 (4306567143673037 / 140737488355328) = 8950904259398861 / 140737488355328"
    unfolding add64_def
    by (subst fl_eval [of "5"]) (simp_all add: rne_def Let_def floor_numeral_divide)
  have qj1: "mul64 (1 / 8) 3 = 3 / 8"
    unfolding mul64_def
    by (subst fl_eval [of "- 2"]) (simp_all add: rne_def Let_def floor_numeral_divide)
  have qj2: "sub64 (3 / 8) (3 / 2) = - (9 / 8)"
    unfolding sub64_def
    by (subst fl_eval [of "0"]) (simp_all add: rne_def Let_def floor_numeral_divide)
  have qa2: "add64 (8950904259398861 / 140737488355328) (- (9 / 8)) = 8792574584999117 / 140737488355328"
    unfolding add64_def
    by (subst fl_eval [of "5"]) (simp_all add: rne_def Let_def floor_numeral_divide)
  have pq: "predictedNoise (locations ! 2) 9 2 55 (1 / 8) = 8792574584999117 / 140737488355328"
    by (simp only: predictedNoise_def env qm1 qm2 qa1 qj1 qj2 qa2)
  have nm1: "mul64 (lit64 (3 / 5)) 65 = 39"
    unfolding mul64_def lit64_3_5 lit64_2_5 lit64_1_5
    by (subst fl_eval [of "5"]) (simp_all add: rne_def Let_def floor_numeral_divide)
  have nm2: "mul64 (lit64 (2 / 5)) (153 / 2) = 4306567143673037 / 140737488355328"
    unfolding mul64_def lit64_3_5 lit64_2_5 lit64_1_5
    by (subst fl_eval [of "4"]) (simp_all add: rne_def Let_def floor_numeral_divide)
  have na1: "add64 39 (4306567143673037 / 140737488355328) = 2448832297382707 / 35184372088832"
    unfolding add64_def
    by (subst fl_eval [of "6"]) (simp_all add: rne_def Let_def floor_numeral_divide)
  have nj1: "mul64 (1 / 8) 3 = 3 / 8"
    unfolding mul64_def
    by (subst fl_eval [of "- 2"]) (simp_all add: rne_def Let_def floor_numeral_divide)
  have nj2: "sub64 (3 / 8) (3 / 2) = - (9 / 8)"
    unfolding sub64_def
    by (subst fl_eval [of "0"]) (simp_all add: rne_def Let_def floor_numeral_divide)
  have na2: "add64 (2448832297382707 / 35184372088832) (- (9 / 8)) = 2409249878782771 / 35184372088832"
    unfolding add64_def
    by (subst fl_eval [of "6"]) (simp_all add: rne_def Let_def floor_numeral_divide)
  have pn: "predictedNoise (locations ! 2) 9 2 65 (1 / 8) = 2409249878782771 / 35184372088832"
    by (simp only: predictedNoise_def env nm1 nm2 na1 nj1 nj2 na2)
  have fq: "toFixed 2 (8792574584999117 / 140737488355328) = 6248 / 100"
    by (simp add: toFixed_def floor_numeral_divide)
  have fn: "toFixed 2 (2409249878782771 / 35184372088832) = 6847 / 100"
    by (simp add: toFixed_def floor_numeral_divide)
  have draw: "?s !! (2 * 2) = 1 / 8" by (rule snth_sconst)
  from generateStaticPredictions_rows [of 9 2 55 ?s] obtain rowsQ where
    resQ: "generateStaticPredictions 9 2 55 ?s = Inr (rowsQ, sdrop 18 ?s)"
    and rowQ: "\<And>i. i < 9 \<Longrightarrow> location (rowsQ ! i) = name (locations ! i)
          \<and> predicted_noise (rowsQ ! i)
              = toFixed 2 (predictedNoise (locations ! i) 9 2 55 (?s !! (2 * i)))"
    by blast
  from generateStaticPredictions_rows [of 9 2 65 ?s] obtain rowsN where
    resN: "generateStaticPredictions 9 2 65 ?s = Inr (rowsN, sdrop 18 ?s)"
    and rowN: "\<And>i. i < 9 \<Longrightarrow> location (rowsN ! i) = name (locations ! i)
          \<and> predicted_noise (rowsN ! i)
              = toFixed 2 (predictedNoise (locations ! i) 9 2 65 (?s !! (2 * i)))"
    by blast
  have roQ: "rows_of (generateStaticPredictions 9 2 55 ?s) = rowsQ" by (simp add: resQ rows_of_def)
  have roN: "rows_of (generateStaticPredictions 9 2 65 ?s) = rowsN" by (simp add: resN rows_of_def)
  have q2: "location (rowsQ ! 2) = name (locations ! 2)
      \<and> predicted_noise (rowsQ ! 2) = toFixed 2 (predictedNoise (locations ! 2) 9 2 55 (?s !! (2 * 2)))"
    by (rule rowQ) simp
  have n2: "location (rowsN ! 2) = name (locations ! 2)
      \<and> predicted_noise (rowsN ! 2) = toFixed 2 (predictedNoise (locations ! 2) 9 2 65 (?s !! (2 * 2)))"
    by (rule rowN) simp
  have lq: "location (rowsQ ! 2) = ''punjabi''" using q2 by (simp add: loc)
  have ln: "location (rowsN ! 2) = ''punjabi''" using n2 by (simp add: loc)
  have gq: "predicted_noise (rowsQ ! 2) = 6248 / 100" using q2 by (simp only: draw pq fq)
  have gn: "predicted_noise (rowsN ! 2) = 6847 / 100" using n2 by (simp only: draw pn fn)
  have h1: "valid_input 9 2 55" "valid_input 9 2 65" by (simp_all add: valid_input_def)
  have h2: "valid_rng ?s" by (simp add: valid_rng_sconst)
  have ne: "predictedNoise (locations ! 2) 9 2 65 (1 / 8)
      \<noteq> predictedNoise (locations ! 2) 9 2 55 (1 / 8) + 3 / 5 * 10"
    by (simp add: pq pn)
  have nf: "predicted_noise (rowsN ! 2) \<noteq> predicted_noise (rowsQ ! 2) + 6" by (simp add: gq gn)
  show ?thesis unfolding roQ roN using h1 h2 lq ln pq pn ne gq gn nf by (intro conjI)
qed

section \<open>Numbers read from text\<close>

lemma pow2_64_le_1024: "(2::rat) ^ 64 \<le> 2 powi 1024"
proof -
  have "(2::rat) powi 64 \<le> 2 powi 1024" by (rule power_int_increasing) simp_all
  then show ?thesis by simp
qed

lemma to_double_eval:
  assumes "fl x = y" and "\<bar>y\<bar> < 2 ^ 64"
  shows "to_double x = Finite y"
  using assms pow2_64_le_1024 by (simp add: to_double_def)

lemma to_double_exact:
  assumes "x = of_int m * 2 powi j" and "\<bar>m\<bar> < 2 ^ 53" and "- 1074 \<le> j" and "\<bar>x\<bar> < 2 ^ 64"
  shows "to_double x = Finite x"
  by (rule to_double_eval [OF fl_exact [OF assms(1,2,3)] assms(4)])

lemma to_double_0: "to_double 0 = Finite 0"
  by (rule to_double_eval) simp_all

lemma to_double_half_grid:
  assumes "2 * x \<in> \<int>" and "\<bar>x\<bar> \<le> 1000"
  shows "to_double x = Finite x"
proof (rule to_double_eval)
  show "fl x = x" by (rule fl_half_grid [OF assms])
  have "\<bar>x\<bar> < 18446744073709551616" using assms(2) by linarith
  then show "\<bar>x\<bar> < 2 ^ 64" by simp
qed

lemma to_double_1: "to_double 1 = Finite 1"
  by (rule to_double_half_grid) simp_all

lemma to_double_numeral:
  "numeral n \<le> (1000::rat) \<Longrightarrow> to_double (numeral n) = Finite (numeral n)"
  by (rule to_double_half_grid) simp_all

lemma fl_pow2_1024: "fl (2 powi 1024) = 2 powi 1024"
  by (rule fl_exact [of _ 1 1024]) simp_all

text \<open>A number from \<open>2^1024\<close> on in magnitude overflows.\<close>

lemma to_double_overflow:
  assumes "2 powi 1024 \<le> x"
  shows "to_double x = PosInfinity" and "to_double (- x) = NegInfinity"
proof -
  have p: "(0::rat) < 2 powi 1024" by simp
  have "fl (2 powi 1024) \<le> fl x" using assms by (rule fl_mono)
  then have big: "2 powi 1024 \<le> fl x" by (simp only: fl_pow2_1024)
  then have "2 powi 1024 \<le> \<bar>fl x\<bar>" by linarith
  moreover have "0 < x" using assms p by linarith
  ultimately show "to_double x = PosInfinity" by (simp add: to_double_def)
  have "2 powi 1024 \<le> \<bar>fl (- x)\<bar>" using big by (simp add: fl_neg)
  moreover have "\<not> 0 < - x" using assms p by linarith
  ultimately show "to_double (- x) = NegInfinity" by (simp add: to_double_def)
qed

text \<open>\<open>2^53 + 1\<close> lies half way between two binary64 values and goes to the even one.\<close>

lemma to_double_2_53_1: "to_double 9007199254740993 = Finite 9007199254740992"
proof (rule to_double_eval)
  show "fl 9007199254740993 = 9007199254740992"
    by (subst fl_eval [of "53"]) (simp_all add: rne_def Let_def floor_numeral_divide)
qed simp

lemmas csv_defs =
  parseCSV_def trim_def isWhiteSpace_def coerce_def Number_def or_empty_def element_def
  NonDecimalIntegerLiteral_def StrUnsignedDecimalLiteral_def parseExponent_def signedDigits_def
  digitsValue_def digitValue_def isDecimalDigit_def isNaN_def scale10_def radixLiteral_def
  negate_def set_property_def to_double_0 to_double_1 to_double_numeral

lemma Number_Infinity:
  "Number ''Infinity'' = PosInfinity" "Number ''+Infinity'' = PosInfinity"
  "Number ''-Infinity'' = NegInfinity"
  by (simp_all add: csv_defs)

lemma Number_1e309: "Number ''1e309'' = PosInfinity"
proof -
  have "(2::rat) powi 1024 \<le> 10 ^ 309" by simp
  then have "to_double (10 ^ 309) = PosInfinity" by (rule to_double_overflow)
  then show ?thesis by (simp add: csv_defs)
qed

lemma Number_2_53_1: "Number ''9007199254740993'' = Finite 9007199254740992"
  by (simp add: csv_defs to_double_2_53_1)

section \<open>The rows of a parsed text\<close>

lemma forEach_header_other:
  "h \<notin> set headers \<Longrightarrow> forEach_header headers index values r h = r h"
  by (induction headers arbitrary: index r) (auto simp: set_property_def)

text \<open>No column stores anything under \<open>__proto__\<close>.\<close>

lemma forEach_header_proto:
  "forEach_header headers index values r ''__proto__'' = r ''__proto__''"
  by (induction headers arbitrary: index r) (simp_all add: set_property_def)

lemma forEach_header_dom:
  "dom (forEach_header headers index values r) = dom r \<union> (set headers - {''__proto__''})"
  by (induction headers arbitrary: index r) (auto simp: set_property_def)

text \<open>A header name keeps the value of the last column that bears it.\<close>

lemma forEach_header_last:
  assumes "i < length headers"
    and "\<forall>k. i < k \<and> k < length headers \<longrightarrow> headers ! k \<noteq> headers ! i"
    and "headers ! i \<noteq> ''__proto__''"
  shows "forEach_header headers index values r (headers ! i)
           = Some (coerce (or_empty (element values (index + i))))"
  using assms
proof (induction headers arbitrary: index r i)
  case Nil
  then show ?case by simp
next
  case (Cons header headers)
  show ?case
  proof (cases i)
    case 0
    have "header \<notin> set headers"
    proof
      assume "header \<in> set headers"
      then obtain k where k: "k < length headers" "headers ! k = header"
        by (auto simp: in_set_conv_nth)
      from Cons.prems(2) have "0 < Suc k \<and> Suc k < length (header # headers)
          \<longrightarrow> (header # headers) ! Suc k \<noteq> (header # headers) ! 0"
        unfolding 0 by blast
      with k show False by simp
    qed
    moreover have "header \<noteq> ''__proto__''" using Cons.prems(3) 0 by simp
    ultimately show ?thesis using 0 by (simp add: forEach_header_other set_property_def)
  next
    case (Suc j)
    have j: "j < length headers" using Cons.prems(1) Suc by simp
    have later: "\<forall>k. j < k \<and> k < length headers \<longrightarrow> headers ! k \<noteq> headers ! j"
    proof (intro allI impI)
      fix k assume k: "j < k \<and> k < length headers"
      from Cons.prems(2) have "i < Suc k \<and> Suc k < length (header # headers)
          \<longrightarrow> (header # headers) ! Suc k \<noteq> (header # headers) ! i"
        by blast
      with k Suc show "headers ! k \<noteq> headers ! j" by simp
    qed
    have np: "headers ! j \<noteq> ''__proto__''" using Cons.prems(3) Suc by simp
    from Cons.IH [OF j later np] show ?thesis using Suc by simp
  qed
qed

lemma parse_lines_eq:
  "parse_lines headers ls data
     = data @ map (\<lambda>line. forEach_header headers 0 (map trim (split (CHR '','') line)) Map.empty)
                (filter (\<lambda>line. line \<noteq> []) (map trim ls))"
  by (induction ls arbitrary: data) (simp_all add: Let_def)

lemma parseCSV_eq:
  assumes "split (CHR 0x0A) (trim csvText) = first # rest" and "rest \<noteq> []"
  shows "parseCSV csvText
     = map (\<lambda>line. forEach_header (map trim (split (CHR '','') first)) 0
                      (map trim (split (CHR '','') line)) Map.empty)
           (filter (\<lambda>line. line \<noteq> []) (map trim rest))"
proof -
  have "\<not> length (first # rest) < 2" using assms(2) by (cases rest) simp_all
  then show ?thesis by (simp add: parseCSV_def assms(1) parse_lines_eq del: One_nat_def)
qed

section \<open>Claims about the record parser\<close>

text \<open>
  C6 (amended). The text with header line \<open>A,B\<close> and the data line \<open>1,2\<close> parses to one
  record with \<open>A\<close> the number 1 and \<open>B\<close> the number 2. In general, the lines after the
  header that are empty once trimmed are skipped, each other line gives one record, in
  order, and the trimmed cell at a header's column is stored as the number
  \<open>Number(cell)\<close> when it is not empty and \<open>Number(cell)\<close> is not \<open>NaN\<close>, and as a string
  otherwise. \<open>Number(cell)\<close> is the binary64 value nearest to the number written, which
  need not be that number (\<open>9007199254740993\<close> is stored as 9007199254740992) and is an
  infinity for the cells \<open>Infinity\<close>, \<open>+Infinity\<close>, \<open>-Infinity\<close> and for a literal that
  overflows, such as \<open>1e309\<close>. A header name that is repeated keeps the cell of its last
  column, and nothing is stored under the header name \<open>__proto__\<close>.
\<close>

theorem parseCSV_coerces_cells:
  assumes "split (CHR 0x0A) (trim csvText) = first # rest" and "rest \<noteq> []"
    and "headers = map trim (split (CHR '','') first)"
    and "records = filter (\<lambda>line. line \<noteq> []) (map trim rest)"
    and "j < length records" and "i < length headers"
    and "\<forall>k. i < k \<and> k < length headers \<longrightarrow> headers ! k \<noteq> headers ! i"
    and "headers ! i \<noteq> ''__proto__''"
    and "cell = or_empty (element (map trim (split (CHR '','') (records ! j))) i)"
  shows "parseCSV (''A,B'' @ [CHR 0x0A] @ ''1,2'')
           = [[''A'' \<mapsto> NumberCell (Finite 1), ''B'' \<mapsto> NumberCell (Finite 2)]]
     \<and> length (parseCSV csvText) = length records
     \<and> (parseCSV csvText ! j) (headers ! i)
          = Some (if cell \<noteq> [] \<and> Number cell \<noteq> NaN then NumberCell (Number cell)
                  else StringCell cell)
     \<and> (parseCSV csvText ! j) ''__proto__'' = None
     \<and> Number ''9007199254740993'' = Finite 9007199254740992
     \<and> Number ''Infinity'' = PosInfinity \<and> Number ''+Infinity'' = PosInfinity
     \<and> Number ''-Infinity'' = NegInfinity \<and> Number ''1e309'' = PosInfinity"
proof -
  have ex: "parseCSV (''A,B'' @ [CHR 0x0A] @ ''1,2'')
      = [[''A'' \<mapsto> NumberCell (Finite 1), ''B'' \<mapsto> NumberCell (Finite 2)]]"
    by (simp add: csv_defs)
  have eq: "parseCSV csvText
      = map (\<lambda>line. forEach_header headers 0 (map trim (split (CHR '','') line)) Map.empty) records"
    unfolding assms(3,4) by (rule parseCSV_eq [OF assms(1,2)])
  have len: "length (parseCSV csvText) = length records" by (simp add: eq)
  have row: "parseCSV csvText ! j
      = forEach_header headers 0 (map trim (split (CHR '','') (records ! j))) Map.empty"
    using assms(5) by (simp add: eq)
  have "(parseCSV csvText ! j) (headers ! i)
      = Some (coerce (or_empty (element (map trim (split (CHR '','') (records ! j))) (0 + i))))"
    unfolding row by (rule forEach_header_last [OF assms(6,7,8)])
  then have entry: "(parseCSV csvText ! j) (headers ! i)
      = Some (if cell \<noteq> [] \<and> Number cell \<noteq> NaN then NumberCell (Number cell) else StringCell cell)"
    by (simp add: coerce_def isNaN_def assms(9))
  have proto: "(parseCSV csvText ! j) ''__proto__'' = None"
    unfolding row by (simp add: forEach_header_proto)
  from ex len entry proto Number_2_53_1 Number_Infinity Number_1e309
  show ?thesis by (intro conjI)
qed

theorem parseCSV_coerces_cells_witness:
  "split (CHR 0x0A) (trim (''A,B'' @ [CHR 0x0A] @ ''1,2'' @ [CHR 0x0A, CHR 0x0A] @ '' 3 , x ''))
      = ''A,B'' # [''1,2'', [], '' 3 , x'']
   \<and> [''1,2'', [], '' 3 , x''] \<noteq> []
   \<and> [''A'', ''B''] = map trim (split (CHR '','') ''A,B'')
   \<and> [''1,2'', ''3 , x''] = filter (\<lambda>line. line \<noteq> []) (map trim [''1,2'', [], '' 3 , x''])
   \<and> [''A'', ''B''] ! 0 \<noteq> ''__proto__''
   \<and> ''3'' = or_empty (element (map trim (split (CHR '','') ([''1,2'', ''3 , x''] ! 1))) 0)
   \<and> length (parseCSV (''A,B'' @ [CHR 0x0A] @ ''1,2'' @ [CHR 0x0A, CHR 0x0A] @ '' 3 , x ''))
       = length [''1,2'', ''3 , x'']
   \<and> (parseCSV (''A,B'' @ [CHR 0x0A] @ ''1,2'' @ [CHR 0x0A, CHR 0x0A] @ '' 3 , x '') ! 1) ''A''
       = Some (NumberCell (Finite 3))
   \<and> (parseCSV (''A,B'' @ [CHR 0x0A] @ ''1,2'' @ [CHR 0x0A, CHR 0x0A] @ '' 3 , x '') ! 1)
       ''__proto__'' = None"
proof -
  let ?t = "''A,B'' @ [CHR 0x0A] @ ''1,2'' @ [CHR 0x0A, CHR 0x0A] @ '' 3 , x ''"
  have h1: "split (CHR 0x0A) (trim ?t) = ''A,B'' # [''1,2'', [], '' 3 , x'']"
    by (simp add: trim_def isWhiteSpace_def)
  have h2: "[''1,2'', [], '' 3 , x''] \<noteq> []" by simp
  have h3: "[''A'', ''B''] = map trim (split (CHR '','') ''A,B'')"
    by (simp add: trim_def isWhiteSpace_def)
  have h4: "[''1,2'', ''3 , x''] = filter (\<lambda>line. line \<noteq> []) (map trim [''1,2'', [], '' 3 , x''])"
    by (simp add: trim_def isWhiteSpace_def)
  have h5: "1 < length [''1,2'', ''3 , x'']" by simp
  have h6: "0 < length [''A'', ''B'']" by simp
  have h7: "\<forall>k. 0 < k \<and> k < length [''A'', ''B''] \<longrightarrow> [''A'', ''B''] ! k \<noteq> [''A'', ''B''] ! 0"
    by (auto simp: less_Suc_eq)
  have h8: "[''A'', ''B''] ! 0 \<noteq> ''__proto__''" by simp
  have h9: "''3'' = or_empty (element (map trim (split (CHR '','') ([''1,2'', ''3 , x''] ! 1))) 0)"
    by (simp add: or_empty_def element_def trim_def isWhiteSpace_def)
  have n: "Number ''3'' = Finite 3" by (simp add: csv_defs)
  from parseCSV_coerces_cells [OF h1 h2 h3 h4 h5 h6 h7 h8 h9]
  have "length (parseCSV ?t) = length [''1,2'', ''3 , x'']"
    and "(parseCSV ?t ! 1) ''A'' = Some (NumberCell (Finite 3))"
    and "(parseCSV ?t ! 1) ''__proto__'' = None"
    by (simp_all add: n)
  with h1 h2 h3 h4 h8 h9 show ?thesis by (intro conjI)
qed

text \<open>
  The claim as stated stores a number only for a cell that parses as a finite number. The
  cell \<open>Infinity\<close> does not, and is stored as a number all the same, not as the string.
\<close>

theorem parseCSV_infinity_counterexample:
  "parseCSV (''A'' @ [CHR 0x0A] @ ''Infinity'') = [[''A'' \<mapsto> NumberCell PosInfinity]]
   \<and> Number ''Infinity'' = PosInfinity
   \<and> (parseCSV (''A'' @ [CHR 0x0A] @ ''Infinity'') ! 0) ''A'' \<noteq> Some (StringCell ''Infinity'')"
  by (simp add: csv_defs)

text \<open>
  C7 (amended). A data line whose number of comma-separated values differs from the
  number of header fields is not rejected: every line after the header that is not empty
  once trimmed gives a record. The record has exactly the header fields as entries, apart
  from a header field named \<open>__proto__\<close>, which gets no entry; so values beyond the
  header's fields are dropped. Any other header field takes the value at its own position
  (a repeated header name that of its last column), and for a line with fewer values than
  header fields the trailing header fields hold the empty string.
\<close>

theorem parseCSV_field_count_mismatch:
  assumes "split (CHR 0x0A) (trim csvText) = first # rest" and "rest \<noteq> []"
    and "headers = map trim (split (CHR '','') first)"
    and "records = filter (\<lambda>line. line \<noteq> []) (map trim rest)"
    and "j < length records" and "i < length headers"
    and "\<forall>k. i < k \<and> k < length headers \<longrightarrow> headers ! k \<noteq> headers ! i"
    and "headers ! i \<noteq> ''__proto__''"
    and "values = map trim (split (CHR '','') (records ! j))"
  shows "length (parseCSV csvText) = length records
     \<and> dom (parseCSV csvText ! j) = set headers - {''__proto__''}
     \<and> (parseCSV csvText ! j) (headers ! i)
          = Some (if i < length values then coerce (values ! i) else StringCell [])
     \<and> parseCSV (''__proto__,B'' @ [CHR 0x0A] @ ''x,2'') = [[''B'' \<mapsto> NumberCell (Finite 2)]]"
proof -
  have eq: "parseCSV csvText
      = map (\<lambda>line. forEach_header headers 0 (map trim (split (CHR '','') line)) Map.empty) records"
    unfolding assms(3,4) by (rule parseCSV_eq [OF assms(1,2)])
  have len: "length (parseCSV csvText) = length records" by (simp add: eq)
  have row: "parseCSV csvText ! j = forEach_header headers 0 values Map.empty"
    using assms(5) by (simp add: eq assms(9))
  have d: "dom (parseCSV csvText ! j) = set headers - {''__proto__''}"
    by (simp add: row forEach_header_dom)
  have "(parseCSV csvText ! j) (headers ! i)
      = Some (coerce (or_empty (element values (0 + i))))"
    unfolding row by (rule forEach_header_last [OF assms(6,7,8)])
  also have "coerce (or_empty (element values (0 + i)))
      = (if i < length values then coerce (values ! i) else StringCell [])"
    by (simp add: element_def or_empty_def coerce_def Let_def)
  finally have entry: "(parseCSV csvText ! j) (headers ! i)
      = Some (if i < length values then coerce (values ! i) else StringCell [])" .
  have proto: "parseCSV (''__proto__,B'' @ [CHR 0x0A] @ ''x,2'')
      = [[''B'' \<mapsto> NumberCell (Finite 2)]]"
    by (simp add: csv_defs)
  from len d entry proto show ?thesis by (intro conjI)
qed

theorem parseCSV_field_count_mismatch_witness:
  "split (CHR 0x0A) (trim (''A,B'' @ [CHR 0x0A] @ ''1'' @ [CHR 0x0A] @ ''7,8,9''))
      = ''A,B'' # [''1'', ''7,8,9'']
   \<and> [''1'', ''7,8,9''] \<noteq> []
   \<and> [''A'', ''B''] = map trim (split (CHR '','') ''A,B'')
   \<and> [''1'', ''7,8,9''] = filter (\<lambda>line. line \<noteq> []) (map trim [''1'', ''7,8,9''])
   \<and> [''A'', ''B''] ! 1 \<noteq> ''__proto__''
   \<and> [''1''] = map trim (split (CHR '','') ([''1'', ''7,8,9''] ! 0))
   \<and> [''7'', ''8'', ''9''] = map trim (split (CHR '','') ([''1'', ''7,8,9''] ! 1))
   \<and> length (parseCSV (''A,B'' @ [CHR 0x0A] @ ''1'' @ [CHR 0x0A] @ ''7,8,9'')) = 2
   \<and> (parseCSV (''A,B'' @ [CHR 0x0A] @ ''1'' @ [CHR 0x0A] @ ''7,8,9'') ! 0) ''B''
       = Some (StringCell [])
   \<and> dom (parseCSV (''A,B'' @ [CHR 0x0A] @ ''1'' @ [CHR 0x0A] @ ''7,8,9'') ! 1) = {''A'', ''B''}
   \<and> (parseCSV (''A,B'' @ [CHR 0x0A] @ ''1'' @ [CHR 0x0A] @ ''7,8,9'') ! 1) ''B''
       = Some (NumberCell (Finite 8))"
proof -
  let ?t = "''A,B'' @ [CHR 0x0A] @ ''1'' @ [CHR 0x0A] @ ''7,8,9''"
  have h1: "split (CHR 0x0A) (trim ?t) = ''A,B'' # [''1'', ''7,8,9'']"
    by (simp add: trim_def isWhiteSpace_def)
  have h2: "[''1'', ''7,8,9''] \<noteq> []" by simp
  have h3: "[''A'', ''B''] = map trim (split (CHR '','') ''A,B'')"
    by (simp add: trim_def isWhiteSpace_def)
  have h4: "[''1'', ''7,8,9''] = filter (\<lambda>line. line \<noteq> []) (map trim [''1'', ''7,8,9''])"
    by (simp add: trim_def isWhiteSpace_def)
  have j0: "0 < length [''1'', ''7,8,9'']" and j1: "1 < length [''1'', ''7,8,9'']" by simp_all
  have i1: "1 < length [''A'', ''B'']" by simp
  have last: "\<forall>k. 1 < k \<and> k < length [''A'', ''B''] \<longrightarrow> [''A'', ''B''] ! k \<noteq> [''A'', ''B''] ! 1"
    by auto
  have np: "[''A'', ''B''] ! 1 \<noteq> ''__proto__''" by simp
  have v0: "[''1''] = map trim (split (CHR '','') ([''1'', ''7,8,9''] ! 0))"
    by (simp add: trim_def isWhiteSpace_def)
  have v1: "[''7'', ''8'', ''9''] = map trim (split (CHR '','') ([''1'', ''7,8,9''] ! 1))"
    by (simp add: trim_def isWhiteSpace_def)
  have c: "coerce ''8'' = NumberCell (Finite 8)" by (simp add: csv_defs)
  have s: "set [''A'', ''B''] - {''__proto__''} = {''A'', ''B''}" by auto
  from parseCSV_field_count_mismatch [OF h1 h2 h3 h4 j0 i1 last np v0]
  have a: "length (parseCSV ?t) = 2" "(parseCSV ?t ! 0) ''B'' = Some (StringCell [])"
    by simp_all
  from parseCSV_field_count_mismatch [OF h1 h2 h3 h4 j1 i1 last np v1]
  have b: "dom (parseCSV ?t ! 1) = {''A'', ''B''}"
    "(parseCSV ?t ! 1) ''B'' = Some (NumberCell (Finite 8))"
    by (simp_all add: c s)
  from h1 h2 h3 h4 np v0 v1 a b show ?thesis by (intro conjI)
qed

text \<open>
  The claim as stated leaves the trailing header fields of a short line undefined. With
  header \<open>A,B\<close> and the data line \<open>1\<close>, the record has an entry for \<open>B\<close>: the empty string.
\<close>

theorem parseCSV_short_line_counterexample:
  "parseCSV (''A,B'' @ [CHR 0x0A] @ ''1'')
      = [[''A'' \<mapsto> NumberCell (Finite 1), ''B'' \<mapsto> StringCell []]]
   \<and> (parseCSV (''A,B'' @ [CHR 0x0A] @ ''1'') ! 0) ''B'' \<noteq> None
   \<and> ''B'' \<in> dom (parseCSV (''A,B'' @ [CHR 0x0A] @ ''1'') ! 0)"
  by (simp add: csv_defs)

section \<open>The accuracy of a mean of percentages\<close>

lemma fl_below_2_17:
  assumes "\<bar>x\<bar> < 131072"
  shows "\<bar>fl x - x\<bar> \<le> 1 / 137438953472"
proof -
  have "\<bar>x\<bar> < 2 powi (16 + 1)" using assms by simp
  then have "\<bar>fl x - x\<bar> \<le> 2 powi (16 - 53)" by (intro fl_error) simp_all
  then show ?thesis by (simp add: power_int_minus_divide)
qed

lemma to_double_below_2_17:
  assumes "\<bar>x\<bar> < 131072"
  shows "\<exists>y. to_double x = Finite y \<and> \<bar>y - x\<bar> \<le> 1 / 137438953472"
proof -
  have e: "\<bar>fl x - x\<bar> \<le> 1 / 137438953472" by (rule fl_below_2_17 [OF assms])
  then have "\<bar>fl x\<bar> < 18446744073709551616" using assms by linarith
  then have "\<bar>fl x\<bar> < 2 ^ 64" by simp
  then have "to_double x = Finite (fl x)" by (intro to_double_eval refl)
  with e show ?thesis by blast
qed

text \<open>
  The sum of at most 1000 percentages, taken from left to right: every addition rounds
  a number below \<open>2^17\<close>, by at most \<open>2^-37\<close>.
\<close>

lemma sum_percentages:
  assumes "\<forall>e \<in> set xs. \<exists>p. Exceedance_Percentage e = Finite p \<and> 0 \<le> p \<and> p \<le> 100"
    and "k + length xs \<le> 1000"
    and "\<bar>s - E\<bar> \<le> of_nat k / 137438953472" and "0 \<le> E" and "E \<le> 100 * of_nat k"
  shows "\<exists>t. foldl (\<lambda>sum station. js_add sum (Exceedance_Percentage station)) (Finite s) xs
              = Finite t
     \<and> \<bar>t - (E + sum_list (map (\<lambda>station. finite_value (Exceedance_Percentage station)) xs))\<bar>
         \<le> of_nat (k + length xs) / 137438953472
     \<and> 0 \<le> E + sum_list (map (\<lambda>station. finite_value (Exceedance_Percentage station)) xs)
     \<and> E + sum_list (map (\<lambda>station. finite_value (Exceedance_Percentage station)) xs)
         \<le> 100 * of_nat (k + length xs)"
  using assms
proof (induction xs arbitrary: s E k)
  case Nil
  then show ?case by simp
next
  case (Cons x xs)
  from Cons.prems(1) obtain p where p: "Exceedance_Percentage x = Finite p" "0 \<le> p" "p \<le> 100"
    by auto
  define K where "K = (of_nat k :: rat)"
  have "k + 1 \<le> 1000" using Cons.prems(2) by simp
  then have "(of_nat (k + 1) :: rat) \<le> of_nat 1000" by (simp only: of_nat_le_iff)
  then have K: "0 \<le> K" "K + 1 \<le> 1000" by (simp_all add: K_def)
  have sE: "\<bar>s - E\<bar> \<le> K / 137438953472" "0 \<le> E" "E \<le> 100 * K"
    using Cons.prems(3,4,5) by (simp_all add: K_def)
  have "\<bar>s + p\<bar> < 131072" using sE K p(2,3) by linarith
  then obtain y where y: "to_double (s + p) = Finite y" "\<bar>y - (s + p)\<bar> \<le> 1 / 137438953472"
    using to_double_below_2_17 by blast
  have step: "js_add (Finite s) (Exceedance_Percentage x) = Finite y"
    by (simp add: js_add_def p(1) y(1))
  have "\<bar>y - (E + p)\<bar> \<le> K / 137438953472 + 1 / 137438953472" using y(2) sE(1) by linarith
  also have "\<dots> = of_nat (Suc k) / 137438953472"
    by (simp add: K_def add_divide_distrib add.commute)
  finally have a: "\<bar>y - (E + p)\<bar> \<le> of_nat (Suc k) / 137438953472" .
  have b: "0 \<le> E + p" using sE(2) p(2) by linarith
  have "E + p \<le> 100 * K + 100" using sE(3) p(3) by linarith
  also have "\<dots> = 100 * of_nat (Suc k)" by (simp add: K_def algebra_simps)
  finally have c: "E + p \<le> 100 * of_nat (Suc k)" .
  have all: "\<forall>e \<in> set xs. \<exists>p. Exceedance_Percentage e = Finite p \<and> 0 \<le> p \<and> p \<le> 100"
    using Cons.prems(1) by simp
  have len: "Suc k + length xs \<le> 1000" using Cons.prems(2) by simp
  from Cons.IH [OF all len a b c] obtain t where
    t: "foldl (\<lambda>sum station. js_add sum (Exceedance_Percentage station)) (Finite y) xs = Finite t"
      "\<bar>t - (E + p + sum_list (map (\<lambda>station. finite_value (Exceedance_Percentage station)) xs))\<bar>
         \<le> of_nat (Suc k + length xs) / 137438953472"
      "0 \<le> E + p + sum_list (map (\<lambda>station. finite_value (Exceedance_Percentage station)) xs)"
      "E + p + sum_list (map (\<lambda>station. finite_value (Exceedance_Percentage station)) xs)
         \<le> 100 * of_nat (Suc k + length xs)"
    by blast
  have f: "foldl (\<lambda>sum station. js_add sum (Exceedance_Percentage station)) (Finite s) (x # xs)
      = Finite t"
    by (simp add: step t(1))
  have g: "E + sum_list (map (\<lambda>station. finite_value (Exceedance_Percentage station)) (x # xs))
      = E + p + sum_list (map (\<lambda>station. finite_value (Exceedance_Percentage station)) xs)"
    by (simp add: p(1) finite_value_def)
  have n: "k + length (x # xs) = Suc k + length xs" by simp
  show ?case unfolding g n using f t(2,3,4) by blast
qed

text \<open>The mean as the code computes it, next to the exact mean.\<close>

lemma mean_percentages:
  assumes "exceedanceSummary \<noteq> []" and "length exceedanceSummary \<le> 1000"
    and "\<forall>e \<in> set exceedanceSummary. \<exists>p. Exceedance_Percentage e = Finite p \<and> 0 \<le> p \<and> p \<le> 100"
  shows "\<exists>a. js_div_length
               (foldl (\<lambda>sum station. js_add sum (Exceedance_Percentage station)) (Finite 0)
                  exceedanceSummary)
               (length exceedanceSummary) = Finite a
     \<and> \<bar>a - spec_mean exceedanceSummary\<bar> \<le> 1 / 10 ^ 11 \<and> \<bar>a\<bar> < 256"
proof -
  define S where
    "S = sum_list (map (\<lambda>station. finite_value (Exceedance_Percentage station)) exceedanceSummary)"
  define n where "n = (of_nat (length exceedanceSummary) :: rat)"
  have n: "1 \<le> n"
  proof -
    have "1 \<le> length exceedanceSummary" using assms(1) by (cases exceedanceSummary) simp_all
    then have "(of_nat 1 :: rat) \<le> of_nat (length exceedanceSummary)" by (simp only: of_nat_le_iff)
    then show ?thesis by (simp add: n_def)
  qed
  have "\<exists>t. foldl (\<lambda>sum station. js_add sum (Exceedance_Percentage station)) (Finite 0)
               exceedanceSummary = Finite t
     \<and> \<bar>t - (0 + S)\<bar> \<le> of_nat (0 + length exceedanceSummary) / 137438953472
     \<and> 0 \<le> 0 + S \<and> 0 + S \<le> 100 * of_nat (0 + length exceedanceSummary)"
    unfolding S_def using assms(2,3) by (intro sum_percentages) simp_all
  then obtain t where
    t: "foldl (\<lambda>sum station. js_add sum (Exceedance_Percentage station)) (Finite 0)
          exceedanceSummary = Finite t"
      "\<bar>t - S\<bar> \<le> n / 137438953472" "0 \<le> S" "S \<le> 100 * n"
    by (auto simp: n_def)
  have d1: "\<bar>t / n - S / n\<bar> \<le> 1 / 137438953472"
  proof -
    have "\<bar>t / n - S / n\<bar> = \<bar>t - S\<bar> / n" using n by (simp add: diff_divide_distrib [symmetric])
    also have "\<dots> \<le> (n / 137438953472) / n" using t(2) n by (intro divide_right_mono) simp_all
    also have "\<dots> = 1 / 137438953472" using n by simp
    finally show ?thesis .
  qed
  have d2: "0 \<le> S / n" "S / n \<le> 100"
  proof -
    show "0 \<le> S / n" using t(3) n by simp
    have "S / n \<le> (100 * n) / n" using t(4) n by (intro divide_right_mono) simp_all
    then show "S / n \<le> 100" using n by simp
  qed
  have small: "\<bar>t / n\<bar> < 256" using d1 d2 by linarith
  have e: "t / n - 1 / 70368744177664 \<le> fl (t / n)" "fl (t / n) \<le> t / n + 1 / 70368744177664"
    by (rule fl_small [OF small])+
  have "\<bar>fl (t / n)\<bar> < 256" using e d1 d2 by linarith
  then have "\<bar>fl (t / n)\<bar> < 18446744073709551616" by linarith
  then have "\<bar>fl (t / n)\<bar> < 2 ^ 64" by simp
  then have td: "to_double (t / n) = Finite (fl (t / n))" by (intro to_double_eval refl)
  have td': "to_double (t / of_nat (length exceedanceSummary)) = Finite (fl (t / n))"
    using td by (simp only: n_def)
  have r: "js_div_length
             (foldl (\<lambda>sum station. js_add sum (Exceedance_Percentage station)) (Finite 0)
                exceedanceSummary)
             (length exceedanceSummary) = Finite (fl (t / n))"
    by (simp add: t(1) js_div_length_def td')
  have "\<bar>fl (t / n) - S / n\<bar> \<le> 1 / 100000000000" using e d1 by linarith
  then have acc: "\<bar>fl (t / n) - spec_mean exceedanceSummary\<bar> \<le> 1 / 10 ^ 11"
    by (simp add: spec_mean_def S_def n_def)
  have "\<bar>fl (t / n)\<bar> < 256" using e d1 d2 by linarith
  with r acc show ?thesis by blast
qed

section \<open>Claims about the metrics aggregator\<close>

text \<open>
  C5 (amended). \<open>calculateKeyMetrics\<close> returns the placeholder \<open>N/A\<close>, 0, 0 whenever
  either list is empty. Otherwise it returns the \<open>Location\<close> of the first rankings record
  as the loudest station, the \<open>Average_LAeq_dBA\<close> of that record rounded to one decimal
  as the highest average noise, and as the average violation rate the mean of
  \<open>Exceedance_Percentage\<close> over all exceedance records as binary64 arithmetic gives it
  (the sum taken from left to right, then divided by the count), rounded to one decimal.
  A finite level below \<open>10^21\<close> is moved by at most 0.05; for at most 1000 records with
  percentages from 0 to 100 the rate has one decimal and is within \<open>0.05 + 10^-11\<close> of
  the exact arithmetic mean, of which it need not be the rounding to one decimal.
\<close>

theorem calculateKeyMetrics_rounds_to_one_decimal:
  "(stationRankings = [] \<or> exceedanceSummary = [] \<longrightarrow>
      calculateKeyMetrics stationRankings exceedanceSummary
        = \<lparr>loudestStation = ''N/A'', highestAvgNoise = Finite 0, avgViolationRate = Finite 0\<rparr>)
   \<and> (stationRankings \<noteq> [] \<and> exceedanceSummary \<noteq> [] \<longrightarrow>
        calculateKeyMetrics stationRankings exceedanceSummary
          = \<lparr>loudestStation = StationRanking.Location (hd stationRankings),
             highestAvgNoise = js_toFixed 1 (Average_LAeq_dBA (hd stationRankings)),
             avgViolationRate =
               js_toFixed 1
                 (js_div_length
                    (foldl (\<lambda>sum station. js_add sum (Exceedance_Percentage station)) (Finite 0)
                       exceedanceSummary)
                    (length exceedanceSummary))\<rparr>
        \<and> (\<forall>a. Average_LAeq_dBA (hd stationRankings) = Finite a \<and> \<bar>a\<bar> < 10 ^ 21 \<longrightarrow>
              (\<exists>h. highestAvgNoise (calculateKeyMetrics stationRankings exceedanceSummary) = Finite h
                  \<and> h * 10 \<in> \<int> \<and> \<bar>h - a\<bar> \<le> 1 / 20))
        \<and> (length exceedanceSummary \<le> 1000
             \<and> (\<forall>e \<in> set exceedanceSummary.
                   \<exists>p. Exceedance_Percentage e = Finite p \<and> 0 \<le> p \<and> p \<le> 100) \<longrightarrow>
              (\<exists>v. avgViolationRate (calculateKeyMetrics stationRankings exceedanceSummary) = Finite v
                  \<and> v * 10 \<in> \<int>
                  \<and> \<bar>v - spec_mean exceedanceSummary\<bar> \<le> 1 / 20 + 1 / 10 ^ 11)))"
proof -
  let ?avg = "js_div_length
      (foldl (\<lambda>sum station. js_add sum (Exceedance_Percentage station)) (Finite 0)
         exceedanceSummary)
      (length exceedanceSummary)"
  have empty: "calculateKeyMetrics stationRankings exceedanceSummary
      = \<lparr>loudestStation = ''N/A'', highestAvgNoise = Finite 0, avgViolationRate = Finite 0\<rparr>"
    if "stationRankings = [] \<or> exceedanceSummary = []"
    using that by (auto simp: calculateKeyMetrics_def)
  have e1: "\<bar>toFixed 1 y - y\<bar> \<le> 1 / 20" for y
    using toFixed_error [of 1 y] by simp
  have g1: "toFixed 1 y * 10 \<in> \<int>" for y
    using toFixed_decimals [of 1 y] by simp
  have full: "calculateKeyMetrics stationRankings exceedanceSummary
        = \<lparr>loudestStation = StationRanking.Location (hd stationRankings),
           highestAvgNoise = js_toFixed 1 (Average_LAeq_dBA (hd stationRankings)),
           avgViolationRate = js_toFixed 1 ?avg\<rparr>
      \<and> (\<forall>a. Average_LAeq_dBA (hd stationRankings) = Finite a \<and> \<bar>a\<bar> < 10 ^ 21 \<longrightarrow>
            (\<exists>h. highestAvgNoise (calculateKeyMetrics stationRankings exceedanceSummary) = Finite h
                \<and> h * 10 \<in> \<int> \<and> \<bar>h - a\<bar> \<le> 1 / 20))
      \<and> (length exceedanceSummary \<le> 1000
           \<and> (\<forall>e \<in> set exceedanceSummary.
                 \<exists>p. Exceedance_Percentage e = Finite p \<and> 0 \<le> p \<and> p \<le> 100) \<longrightarrow>
            (\<exists>v. avgViolationRate (calculateKeyMetrics stationRankings exceedanceSummary) = Finite v
                \<and> v * 10 \<in> \<int>
                \<and> \<bar>v - spec_mean exceedanceSummary\<bar> \<le> 1 / 20 + 1 / 10 ^ 11))"
    if ne: "stationRankings \<noteq> [] \<and> exceedanceSummary \<noteq> []"
  proof -
    have eq: "calculateKeyMetrics stationRankings exceedanceSummary
        = \<lparr>loudestStation = StationRanking.Location (hd stationRankings),
           highestAvgNoise = js_toFixed 1 (Average_LAeq_dBA (hd stationRankings)),
           avgViolationRate = js_toFixed 1 ?avg\<rparr>"
      using ne by (simp add: calculateKeyMetrics_def Let_def hd_conv_nth)
    have lev: "\<exists>h. highestAvgNoise (calculateKeyMetrics stationRankings exceedanceSummary) = Finite h
          \<and> h * 10 \<in> \<int> \<and> \<bar>h - a\<bar> \<le> 1 / 20"
      if "Average_LAeq_dBA (hd stationRankings) = Finite a \<and> \<bar>a\<bar> < 10 ^ 21" for a
    proof -
      have "highestAvgNoise (calculateKeyMetrics stationRankings exceedanceSummary)
          = Finite (toFixed 1 a)"
        using that by (simp add: eq js_toFixed_def)
      then show ?thesis using g1 [of a] e1 [of a] by blast
    qed
    have rate: "\<exists>v. avgViolationRate (calculateKeyMetrics stationRankings exceedanceSummary) = Finite v
          \<and> v * 10 \<in> \<int> \<and> \<bar>v - spec_mean exceedanceSummary\<bar> \<le> 1 / 20 + 1 / 10 ^ 11"
      if h: "length exceedanceSummary \<le> 1000
           \<and> (\<forall>e \<in> set exceedanceSummary.
                 \<exists>p. Exceedance_Percentage e = Finite p \<and> 0 \<le> p \<and> p \<le> 100)"
    proof -
      from mean_percentages [of exceedanceSummary] ne h obtain a where
        a: "?avg = Finite a" "\<bar>a - spec_mean exceedanceSummary\<bar> \<le> 1 / 10 ^ 11" "\<bar>a\<bar> < 256"
        by blast
      have "\<bar>a\<bar> < 1000000000000000000000" using a(3) by linarith
      then have "\<not> 10 ^ 21 \<le> \<bar>a\<bar>" by simp
      then have v: "avgViolationRate (calculateKeyMetrics stationRankings exceedanceSummary)
          = Finite (toFixed 1 a)"
        by (simp add: eq a(1) js_toFixed_def)
      have "\<bar>a - spec_mean exceedanceSummary\<bar> \<le> 1 / 100000000000" using a(2) by simp
      then have "\<bar>toFixed 1 a - spec_mean exceedanceSummary\<bar> \<le> 1 / 20 + 1 / 100000000000"
        using e1 [of a] by linarith
      then have "\<bar>toFixed 1 a - spec_mean exceedanceSummary\<bar> \<le> 1 / 20 + 1 / 10 ^ 11" by simp
      then show ?thesis using v g1 [of a] by blast
    qed
    from eq lev rate show ?thesis by blast
  qed
  from empty full show ?thesis by blast
qed

theorem calculateKeyMetrics_rounds_to_one_decimal_witness:
  "calculateKeyMetrics []
      [\<lparr>Location = ''ito'', Zone_Type = ''Commercial'', Day_Limit_dBA = Finite 65,
        Night_Limit_dBA = Finite 55, Exceedance_Count = Finite 90, Total_Count = Finite 100,
        Exceedance_Percentage = Finite 90\<rparr>]
     = \<lparr>loudestStation = ''N/A'', highestAvgNoise = Finite 0, avgViolationRate = Finite 0\<rparr>
   \<and> calculateKeyMetrics
        [\<lparr>StationRanking.Location = ''ito'', Average_LAeq_dBA = Finite (1159 / 16),
          StationRanking.Zone_Type = ''Commercial'', StationRanking.Day_Limit_dBA = Finite 65,
          StationRanking.Night_Limit_dBA = Finite 55\<rparr>]
        [\<lparr>Location = ''ito'', Zone_Type = ''Commercial'', Day_Limit_dBA = Finite 65,
          Night_Limit_dBA = Finite 55, Exceedance_Count = Finite 90, Total_Count = Finite 100,
          Exceedance_Percentage = Finite 90\<rparr>,
         \<lparr>Location = ''nsit'', Zone_Type = ''Silence Zone'', Day_Limit_dBA = Finite 50,
          Night_Limit_dBA = Finite 40, Exceedance_Count = Finite 49, Total_Count = Finite 400,
          Exceedance_Percentage = Finite (49 / 4)\<rparr>]
     = \<lparr>loudestStation = ''ito'', highestAvgNoise = Finite (362 / 5),
        avgViolationRate = Finite (511 / 10)\<rparr>
   \<and> spec_mean
        [\<lparr>Location = ''ito'', Zone_Type = ''Commercial'', Day_Limit_dBA = Finite 65,
          Night_Limit_dBA = Finite 55, Exceedance_Count = Finite 90, Total_Count = Finite 100,
          Exceedance_Percentage = Finite 90\<rparr>,
         \<lparr>Location = ''nsit'', Zone_Type = ''Silence Zone'', Day_Limit_dBA = Finite 50,
          Night_Limit_dBA = Finite 40, Exceedance_Count = Finite 49, Total_Count = Finite 400,
          Exceedance_Percentage = Finite (49 / 4)\<rparr>]
     = 409 / 8"
proof -
  let ?e1 = "\<lparr>Location = ''ito'', Zone_Type = ''Commercial'', Day_Limit_dBA = Finite 65,
        Night_Limit_dBA = Finite 55, Exceedance_Count = Finite 90, Total_Count = Finite 100,
        Exceedance_Percentage = Finite 90\<rparr>"
  let ?e2 = "\<lparr>Location = ''nsit'', Zone_Type = ''Silence Zone'', Day_Limit_dBA = Finite 50,
        Night_Limit_dBA = Finite 40, Exceedance_Count = Finite 49, Total_Count = Finite 400,
        Exceedance_Percentage = Finite (49 / 4)\<rparr>"
  let ?r = "\<lparr>StationRanking.Location = ''ito'', Average_LAeq_dBA = Finite (1159 / 16),
        StationRanking.Zone_Type = ''Commercial'', StationRanking.Day_Limit_dBA = Finite 65,
        StationRanking.Night_Limit_dBA = Finite 55\<rparr>"
  have d0: "to_double 90 = Finite 90" by (rule to_double_numeral) simp
  have d1: "to_double (409 / 4) = Finite (409 / 4)"
    by (rule to_double_exact [of _ 409 "- 2"]) (simp_all add: power_int_minus_divide)
  have d2: "to_double (409 / 8) = Finite (409 / 8)"
    by (rule to_double_exact [of _ 409 "- 3"]) (simp_all add: power_int_minus_divide)
  have t1: "js_toFixed 1 (Finite (1159 / 16)) = Finite (362 / 5)"
    by (simp add: js_toFixed_def toFixed_def floor_numeral_divide)
  have t2: "js_toFixed 1 (Finite (409 / 8)) = Finite (511 / 10)"
    by (simp add: js_toFixed_def toFixed_def floor_numeral_divide)
  from calculateKeyMetrics_rounds_to_one_decimal [of "[]" "[?e1]"]
  have a: "calculateKeyMetrics [] [?e1]
      = \<lparr>loudestStation = ''N/A'', highestAvgNoise = Finite 0, avgViolationRate = Finite 0\<rparr>"
    by simp
  from calculateKeyMetrics_rounds_to_one_decimal [of "[?r]" "[?e1, ?e2]"]
  have "calculateKeyMetrics [?r] [?e1, ?e2]
      = \<lparr>loudestStation = StationRanking.Location (hd [?r]),
         highestAvgNoise = js_toFixed 1 (Average_LAeq_dBA (hd [?r])),
         avgViolationRate =
           js_toFixed 1
             (js_div_length
                (foldl (\<lambda>sum station. js_add sum (Exceedance_Percentage station)) (Finite 0)
                   [?e1, ?e2])
                (length [?e1, ?e2]))\<rparr>"
    by blast
  then have b: "calculateKeyMetrics [?r] [?e1, ?e2]
      = \<lparr>loudestStation = ''ito'', highestAvgNoise = Finite (362 / 5),
         avgViolationRate = Finite (511 / 10)\<rparr>"
    by (simp add: js_add_def js_div_length_def d0 d1 d2 t1 t2 del: One_nat_def)
  have c: "spec_mean [?e1, ?e2] = 409 / 8" by (simp add: spec_mean_def finite_value_def)
  from a b c show ?thesis by (intro conjI)
qed

text \<open>
  The claim as stated returns the average level and the mean unrounded. A first record
  with level 72.4375 gives 72.4, and a single exceedance percentage of 12.3125 gives
  12.3. Nor is the rate the exact mean rounded to one decimal: for the five percentages
  0.75, 0, 0, 0, 0 the exact mean is 0.15, the quotient computed is the binary64 value just
  below it, and the rate is 0.1.
\<close>

theorem calculateKeyMetrics_unrounded_counterexample:
  "highestAvgNoise (calculateKeyMetrics
        [\<lparr>StationRanking.Location = ''ito'', Average_LAeq_dBA = Finite (1159 / 16),
          StationRanking.Zone_Type = ''Commercial'', StationRanking.Day_Limit_dBA = Finite 65,
          StationRanking.Night_Limit_dBA = Finite 55\<rparr>]
        [\<lparr>Location = ''ito'', Zone_Type = ''Commercial'', Day_Limit_dBA = Finite 65,
          Night_Limit_dBA = Finite 55, Exceedance_Count = Finite 197, Total_Count = Finite 1600,
          Exceedance_Percentage = Finite (197 / 16)\<rparr>])
     = Finite (362 / 5)
   \<and> Finite (362 / 5) \<noteq> Finite (1159 / 16)
   \<and> avgViolationRate (calculateKeyMetrics
        [\<lparr>StationRanking.Location = ''ito'', Average_LAeq_dBA = Finite (1159 / 16),
          StationRanking.Zone_Type = ''Commercial'', StationRanking.Day_Limit_dBA = Finite 65,
          StationRanking.Night_Limit_dBA = Finite 55\<rparr>]
        [\<lparr>Location = ''ito'', Zone_Type = ''Commercial'', Day_Limit_dBA = Finite 65,
          Night_Limit_dBA = Finite 55, Exceedance_Count = Finite 197, Total_Count = Finite 1600,
          Exceedance_Percentage = Finite (197 / 16)\<rparr>])
     = Finite (123 / 10)
   \<and> spec_mean
        [\<lparr>Location = ''ito'', Zone_Type = ''Commercial'', Day_Limit_dBA = Finite 65,
          Night_Limit_dBA = Finite 55, Exceedance_Count = Finite 197, Total_Count = Finite 1600,
          Exceedance_Percentage = Finite (197 / 16)\<rparr>]
     = 197 / 16
   \<and> Finite (123 / 10) \<noteq> Finite (197 / 16)
   \<and> avgViolationRate (calculateKeyMetrics
        [\<lparr>StationRanking.Location = ''ito'', Average_LAeq_dBA = Finite (1159 / 16),
          StationRanking.Zone_Type = ''Commercial'', StationRanking.Day_Limit_dBA = Finite 65,
          StationRanking.Night_Limit_dBA = Finite 55\<rparr>]
        (\<lparr>Location = ''ito'', Zone_Type = ''Commercial'', Day_Limit_dBA = Finite 65,
           Night_Limit_dBA = Finite 55, Exceedance_Count = Finite 3, Total_Count = Finite 400,
           Exceedance_Percentage = Finite (3 / 4)\<rparr>
         # replicate 4
             \<lparr>Location = ''nsit'', Zone_Type = ''Silence Zone'', Day_Limit_dBA = Finite 50,
              Night_Limit_dBA = Finite 40, Exceedance_Count = Finite 0, Total_Count = Finite 400,
              Exceedance_Percentage = Finite 0\<rparr>))
     = Finite (1 / 10)
   \<and> spec_mean
        (\<lparr>Location = ''ito'', Zone_Type = ''Commercial'', Day_Limit_dBA = Finite 65,
           Night_Limit_dBA = Finite 55, Exceedance_Count = Finite 3, Total_Count = Finite 400,
           Exceedance_Percentage = Finite (3 / 4)\<rparr>
         # replicate 4
             \<lparr>Location = ''nsit'', Zone_Type = ''Silence Zone'', Day_Limit_dBA = Finite 50,
              Night_Limit_dBA = Finite 40, Exceedance_Count = Finite 0, Total_Count = Finite 400,
              Exceedance_Percentage = Finite 0\<rparr>)
     = 3 / 20
   \<and> toFixed 1 (3 / 20) = 1 / 5"
proof -
  let ?r = "\<lparr>StationRanking.Location = ''ito'', Average_LAeq_dBA = Finite (1159 / 16),
        StationRanking.Zone_Type = ''Commercial'', StationRanking.Day_Limit_dBA = Finite 65,
        StationRanking.Night_Limit_dBA = Finite 55\<rparr>"
  let ?e = "\<lparr>Location = ''ito'', Zone_Type = ''Commercial'', Day_Limit_dBA = Finite 65,
        Night_Limit_dBA = Finite 55, Exceedance_Count = Finite 197, Total_Count = Finite 1600,
        Exceedance_Percentage = Finite (197 / 16)\<rparr>"
  let ?f = "\<lparr>Location = ''ito'', Zone_Type = ''Commercial'', Day_Limit_dBA = Finite 65,
        Night_Limit_dBA = Finite 55, Exceedance_Count = Finite 3, Total_Count = Finite 400,
        Exceedance_Percentage = Finite (3 / 4)\<rparr>"
  let ?z = "\<lparr>Location = ''nsit'', Zone_Type = ''Silence Zone'', Day_Limit_dBA = Finite 50,
        Night_Limit_dBA = Finite 40, Exceedance_Count = Finite 0, Total_Count = Finite 400,
        Exceedance_Percentage = Finite 0\<rparr>"
  have four: "replicate 4 ?z = [?z, ?z, ?z, ?z]" by (simp add: numeral_eq_Suc)
  have d1: "to_double (197 / 16) = Finite (197 / 16)"
    by (rule to_double_exact [of _ 197 "- 4"]) (simp_all add: power_int_minus_divide)
  have d2: "to_double (3 / 4) = Finite (3 / 4)"
    by (rule to_double_exact [of _ 3 "- 2"]) (simp_all add: power_int_minus_divide)
  have "fl (3 / 20) = 5404319552844595 / 36028797018963968"
    by (subst fl_eval [of "- 3"]) (simp_all add: rne_def Let_def floor_numeral_divide)
  then have d3: "to_double (3 / 20) = Finite (5404319552844595 / 36028797018963968)"
    by (rule to_double_eval) simp
  have t1: "js_toFixed 1 (Finite (1159 / 16)) = Finite (362 / 5)"
    by (simp add: js_toFixed_def toFixed_def floor_numeral_divide)
  have t2: "js_toFixed 1 (Finite (197 / 16)) = Finite (123 / 10)"
    by (simp add: js_toFixed_def toFixed_def floor_numeral_divide)
  have t3: "js_toFixed 1 (Finite (5404319552844595 / 36028797018963968)) = Finite (1 / 10)"
    by (simp add: js_toFixed_def toFixed_def floor_numeral_divide)
  have a: "highestAvgNoise (calculateKeyMetrics [?r] [?e]) = Finite (362 / 5)"
    by (simp add: calculateKeyMetrics_def Let_def t1 del: One_nat_def)
  have b: "avgViolationRate (calculateKeyMetrics [?r] [?e]) = Finite (123 / 10)"
    by (simp add: calculateKeyMetrics_def Let_def js_add_def js_div_length_def d1 t2 del: One_nat_def)
  have c: "spec_mean [?e] = 197 / 16" by (simp add: spec_mean_def finite_value_def)
  have d: "avgViolationRate (calculateKeyMetrics [?r] (?f # replicate 4 ?z)) = Finite (1 / 10)"
    unfolding four
    by (simp add: calculateKeyMetrics_def Let_def js_add_def js_div_length_def d2 d3 t3 del: One_nat_def)
  have e: "spec_mean (?f # replicate 4 ?z) = 3 / 20"
    unfolding four by (simp add: spec_mean_def finite_value_def)
  have f: "toFixed 1 (3 / 20) = 1 / 5" by (simp add: toFixed_def floor_numeral_divide)
  have n1: "Finite (362 / 5) \<noteq> Finite (1159 / 16)" by simp
  have n2: "Finite (123 / 10) \<noteq> Finite (197 / 16)" by simp
  from a n1 b c n2 d e f show ?thesis by (intro conjI)
qed

section \<open>Claims about the text-generation client\<close>

text \<open>Every call lists the models first, whatever the log holds already.\<close>

lemma callGeminiAPI_lists_models_first:
  "\<exists>more. snd (callGeminiAPI key net prompt sent) = sent @ GET (MODELS_LIST_URL key) # more"
  by (auto simp: callGeminiAPI_def pickModelWithGenerateContent_def listAvailableModels_def Let_def
      split: response.splits option.splits list.splits prod.splits sum.splits)

text \<open>
  The outcomes of a call, case by case: the listing fails, no listed model supports
  \<open>generateContent\<close>, the generation request fails, the response has no candidates, the
  first candidate has no part, or the text of the first part of the first candidate is
  returned, trimmed. The model asked is the first listed one that supports
  \<open>generateContent\<close>.
\<close>

lemma callGeminiAPI_outcomes:
  "fst (callGeminiAPI key net prompt sent) =
     (case listModels net (MODELS_LIST_URL key) of
        FetchRejected m \<Rightarrow> Inl (TypeError m)
      | StatusNotOk m statusText \<Rightarrow>
          Inl (Error (''Failed to list Gemini models: '' @ error_message m statusText))
      | StatusOk models \<Rightarrow>
          (case filter (\<lambda>m. case supportedGenerationMethods m of
                               None \<Rightarrow> False
                             | Some methods \<Rightarrow> ''generateContent'' \<in> set methods) models of
             [] \<Rightarrow> Inl (Error ''No model supports generateContent in this project.'')
           | model # others \<Rightarrow>
               (case generateContent net
                       (''https://generativelanguage.googleapis.com/v1beta/'' @ ModelInfo.name model
                          @ '':generateContent?key='' @ key)
                       (request_body prompt) of
                  FetchRejected m \<Rightarrow> Inl (TypeError m)
                | StatusNotOk m statusText \<Rightarrow>
                    Inl (Error (''Gemini API error: '' @ error_message m statusText))
                | StatusOk data \<Rightarrow>
                    (case candidates data of
                       None \<Rightarrow> Inl (Error ''No response returned from Gemini API'')
                     | Some [] \<Rightarrow> Inl (Error ''No response returned from Gemini API'')
                     | Some (c # cs) \<Rightarrow>
                         (case parts (content c) of
                            [] \<Rightarrow> Inl (TypeError ''Cannot read properties of undefined (reading text)'')
                          | p # ps \<Rightarrow> Inr (trim (part_text p)))))))"
  by (simp add: callGeminiAPI_def pickModelWithGenerateContent_def listAvailableModels_def Let_def
      split: response.split option.split list.split)

text \<open>
  C8. The client is claimed to throw exactly when the listing fails, when no listed model
  supports \<open>generateContent\<close>, when the generation request fails, or when the response has
  no candidates, and to return the trimmed text of the first candidate otherwise. With one
  listed model that supports \<open>generateContent\<close> and a successful generation response whose
  first candidate has an empty list of parts, none of the four cases holds, and the call
  throws a \<open>TypeError\<close> instead of returning a text.
\<close>

theorem callGeminiAPI_candidate_without_parts:
  "callGeminiAPI ''k''
     \<lparr>listModels = (\<lambda>url. StatusOk
        [\<lparr>ModelInfo.name = ''models/gemini-pro'', supportedGenerationMethods = Some [''generateContent'']\<rparr>]),
      generateContent = (\<lambda>url body. StatusOk \<lparr>candidates = Some [\<lparr>content = \<lparr>parts = []\<rparr>\<rparr>]\<rparr>)\<rparr>
     ''Summarise'' []
   = (Inl (TypeError ''Cannot read properties of undefined (reading text)''),
      [GET ''https://generativelanguage.googleapis.com/v1beta/models?key=k'',
       POST ''https://generativelanguage.googleapis.com/v1beta/models/gemini-pro:generateContent?key=k''
         (request_body ''Summarise'')])"
  by (simp add: callGeminiAPI_def pickModelWithGenerateContent_def listAvailableModels_def
      MODELS_LIST_URL_def Let_def)

end
